theory Spec2Isabelle
  imports Complex_Main
begin

text \<open>
  A shallow embedding of \<^verbatim>\<open>gemmi prep\<close>, the program that prepares a structure for
  Refmac. The sources hold two revisions of \<^verbatim>\<open>prep.cpp\<close>:
  \<^item> src/prog/prep.cpp, the later one, with several \<^verbatim>\<open>--lib\<close> and \<^verbatim>\<open>--low\<close> libraries;
    its monomer resolution and ad-hoc synthesis are modelled here. For link detection
    it calls \<^verbatim>\<open>add_automatic_links\<close>, which is not among the sources.
  \<^item> src/src/prep.cpp, the earlier one, whose link detection \<^verbatim>\<open>assign_connections\<close> is
    modelled here. Its \<^verbatim>\<open>find_most_complete_residue\<close> and its synthesis loop are those
    of the later revision, word for word (the loop runs over all residue names instead
    of the needed ones); the rest of its \<^verbatim>\<open>main\<close> depends on the return value of
    \<^verbatim>\<open>read_monomer_lib\<close> and is not modelled.
  Functions of the gemmi library that the program calls and that are not among the
  sources are either parameters (tables and services whose results the program does not
  inspect) or modelled from the specification; each of the latter says so.
\<close>

section \<open>Data model\<close>

text \<open>
  The structures of the \<^verbatim>\<open>gemmi\<close> library that \<^verbatim>\<open>prep.cpp\<close> works on. Only the
  fields the program reads are kept. A model owns its chains, a chain its residues, a
  residue its atoms, each as an ordered sequence (\<^verbatim>\<open>std::vector\<close>).
  A value of the C++ types \<^verbatim>\<open>float\<close> and \<^verbatim>\<open>double\<close> is represented by the real
  number it denotes; the operations on such values round their results, as described
  with the link detection below.
\<close>

record atom =
  atom_name :: string
  element :: string
  pos :: "real \<times> real \<times> real"

record residue =
  res_name :: string
  seqnum :: int
  atoms :: "atom list"

record chain =
  chain_name :: string
  residues :: "residue list"

record model =
  chains :: "chain list"

section \<open>Template selection: \<^verbatim>\<open>find_most_complete_residue\<close>\<close>

text \<open>
  \<^verbatim>\<open>
  inline const Residue* find_most_complete_residue(const std::string& name,
                                                   const Model& model) {
    const Residue* r = nullptr;
    for (const Chain& chain : model.chains)
      for (const Residue& residue : chain.residues)
        if (residue.name == name && (!r || residue.atoms.size() > r->atoms.size()))
          r = &residue;
    return r;
  }
  \<close>
  The function returns a pointer into the model. The model is not changed while the
  pointer is alive, so a pointer to a residue is represented by the place it points to
  (index of the chain, index of the residue in the chain) together with the residue
  stored there; \<^verbatim>\<open>nullptr\<close> is \<open>None\<close>.
\<close>

type_synonym residue_ptr = "(nat \<times> nat) \<times> residue"

definition pointee :: "residue_ptr \<Rightarrow> residue" where
  "pointee p = snd p"

text \<open>The body of the inner loop: the test and the assignment \<^verbatim>\<open>r = &residue\<close>.\<close>

definition consider_residue :: "string \<Rightarrow> residue_ptr option \<Rightarrow> residue_ptr \<Rightarrow> residue_ptr option" where
  "consider_residue name r here =
     (if res_name (pointee here) = name \<and>
         (case r of None \<Rightarrow> True
          | Some best \<Rightarrow> length (atoms (pointee here)) > length (atoms (pointee best)))
      then Some here else r)"

text \<open>The inner loop over \<^verbatim>\<open>chain.residues\<close>; \<open>ri\<close> is the index of the next residue.\<close>

fun scan_residues :: "string \<Rightarrow> nat \<Rightarrow> nat \<Rightarrow> residue list \<Rightarrow> residue_ptr option \<Rightarrow> residue_ptr option" where
  "scan_residues name ci ri [] r = r"
| "scan_residues name ci ri (res # rest) r =
     scan_residues name ci (Suc ri) rest (consider_residue name r ((ci, ri), res))"

text \<open>The outer loop over \<^verbatim>\<open>model.chains\<close>; \<open>ci\<close> is the index of the next chain.\<close>

fun scan_chains :: "string \<Rightarrow> nat \<Rightarrow> chain list \<Rightarrow> residue_ptr option \<Rightarrow> residue_ptr option" where
  "scan_chains name ci [] r = r"
| "scan_chains name ci (ch # rest) r =
     scan_chains name (Suc ci) rest (scan_residues name ci 0 (residues ch) r)"

definition find_most_complete_residue :: "string \<Rightarrow> model \<Rightarrow> residue_ptr option" where
  "find_most_complete_residue name m = scan_chains name 0 (chains m) None"

subsection \<open>What the specification asks of the template\<close>

text \<open>
  The residues of a model in chain/residue traversal order, each with its place.
\<close>

fun number_residues :: "nat \<Rightarrow> nat \<Rightarrow> residue list \<Rightarrow> residue_ptr list" where
  "number_residues ci ri [] = []"
| "number_residues ci ri (res # rest) = ((ci, ri), res) # number_residues ci (Suc ri) rest"

fun number_chains :: "nat \<Rightarrow> chain list \<Rightarrow> residue_ptr list" where
  "number_chains ci [] = []"
| "number_chains ci (ch # rest) = number_residues ci 0 (residues ch) @ number_chains (Suc ci) rest"

definition traversal :: "model \<Rightarrow> residue_ptr list" where
  "traversal m = number_chains 0 (chains m)"

definition natoms :: "residue_ptr \<Rightarrow> nat" where
  "natoms p = length (atoms (pointee p))"

definition named :: "string \<Rightarrow> model \<Rightarrow> residue_ptr list" where
  "named name m = filter (\<lambda>p. res_name (pointee p) = name) (traversal m)"

text \<open>
  Following the specification's words: among all residues of the model carrying the
  name, the one with the largest atom count, ties broken by first occurrence in
  traversal order; nothing when no residue carries the name.
\<close>

definition largest_first :: "string \<Rightarrow> model \<Rightarrow> residue_ptr option" where
  "largest_first name m =
     find (\<lambda>p. natoms p = Max (set (map natoms (named name m)))) (named name m)"

section \<open>Automatic link detection: \<^verbatim>\<open>assign_connections\<close> (src/src/prep.cpp)\<close>

subsection \<open>Connections and atom addresses\<close>

text \<open>
  \<^verbatim>\<open>Connection::Type\<close> and \<^verbatim>\<open>Asu\<close>. The program names \<^verbatim>\<open>Connection::Covale\<close>,
  \<^verbatim>\<open>Asu::Same\<close> and \<^verbatim>\<open>Asu::Different\<close>; the other values stand for what connections
  read from a file may carry.
\<close>

datatype conn_type = Covale | Disulf | Hydrog | MetalC | Unknown

datatype asu = Any | Same | Different

record atom_address =
  addr_chain :: string
  addr_seqnum :: int
  addr_res_name :: string
  addr_atom :: string

record connection =
  conn_name :: string
  conn_type :: conn_type
  conn_asu :: asu
  partner1 :: atom_address
  partner2 :: atom_address
  reported_distance :: real

text \<open>
  \<^verbatim>\<open>CRA\<close> is a triple of pointers (chain, residue, atom) into the model, which is not
  changed during link detection; it is represented by the three objects pointed to.
\<close>

record cra =
  cra_chain :: chain
  cra_residue :: residue
  cra_atom :: atom

text \<open>
  The arguments with which the contact search calls the visitor:
  \<^verbatim>\<open>(const CRA& cra1, const CRA& cra2, int image_idx, float dist_sq)\<close>.
\<close>

record neighbor_pair =
  np_cra1 :: cra
  np_cra2 :: cra
  image_idx :: int
  dist_sq :: real

record Structure =
  models :: "model list"
  connections :: "connection list"

subsection \<open>Library functions the program calls\<close>

text \<open>
  Modelled from the spec: \<^verbatim>\<open>make_address\<close> (gemmi, not among the sources). The spec's
  data model says a Connection is an edge between two atom addresses (chain, residue,
  atom); the residue is identified by its sequence position and its name.
\<close>

definition make_address :: "chain \<Rightarrow> residue \<Rightarrow> atom \<Rightarrow> atom_address" where
  "make_address ch res a =
     \<lparr>addr_chain = chain_name ch, addr_seqnum = seqnum res,
      addr_res_name = res_name res, addr_atom = atom_name a\<rparr>"

text \<open>
  Modelled from the spec: the case-insensitive address match of step 2b (part of
  \<^verbatim>\<open>find_connection_by_cra\<close>, not among the sources). Letters are compared after
  mapping \<open>A\<close> to \<open>Z\<close> to lower case; an atom matches an address when chain, sequence
  position, residue name and atom name agree.
\<close>

definition to_lower :: "char \<Rightarrow> char" where
  "to_lower c = (let n = (of_char c :: nat) in if 65 \<le> n \<and> n \<le> 90 then char_of (n + 32) else c)"

definition iequal :: "string \<Rightarrow> string \<Rightarrow> bool" where
  "iequal a b = (map to_lower a = map to_lower b)"

definition atom_matches :: "cra \<Rightarrow> atom_address \<Rightarrow> bool" where
  "atom_matches c a =
     (iequal (chain_name (cra_chain c)) (addr_chain a) \<and>
      seqnum (cra_residue c) = addr_seqnum a \<and>
      iequal (res_name (cra_residue c)) (addr_res_name a) \<and>
      iequal (atom_name (cra_atom c)) (addr_atom a))"

text \<open>
  Modelled from the spec: \<^verbatim>\<open>Structure::find_connection_by_cra\<close> (gemmi, not among the
  sources). The spec's step 2b: a Connection between this exact atom pair already
  exists in the existing connections, by case-insensitive address match. A connection
  is an edge, so either order of its partners matches.
\<close>

definition find_connection_by_cra :: "connection list \<Rightarrow> cra \<Rightarrow> cra \<Rightarrow> connection option" where
  "find_connection_by_cra conns c1 c2 =
     find (\<lambda>c. (atom_matches c1 (partner1 c) \<and> atom_matches c2 (partner2 c)) \<or>
               (atom_matches c1 (partner2 c) \<and> atom_matches c2 (partner1 c))) conns"

text \<open>
  Modelled from the spec: ``the two atoms belong to residues adjacent in the same
  chain'' (step 2a, part of \<^verbatim>\<open>for_each_contact\<close>, not among the sources): the chain
  identifiers are equal and the sequence positions differ by one.
\<close>

definition adjacent_residues :: "cra \<Rightarrow> cra \<Rightarrow> bool" where
  "adjacent_residues c1 c2 =
     (chain_name (cra_chain c1) = chain_name (cra_chain c2) \<and>
      \<bar>seqnum (cra_residue c1) - seqnum (cra_residue c2)\<bar> = 1)"

text \<open>
  Modelled from the spec: \<^verbatim>\<open>ContactSearch::for_each_contact\<close> with
  \<^verbatim>\<open>ignore = Ignore::AdjacentResidues\<close> (gemmi, not among the sources). The spec's step 2
  and 2a: the visitor is called for each neighbour pair with distance at most the bond
  radius, skipping pairs whose atoms belong to residues adjacent in the same chain. The
  pairs are visited in the order in which the neighbour search yields them.
\<close>

definition contacts :: "real \<Rightarrow> neighbor_pair list \<Rightarrow> neighbor_pair list" where
  "contacts search_radius ns =
     filter (\<lambda>p. dist_sq p \<le> search_radius\<^sup>2 \<and> \<not> adjacent_residues (np_cra1 p) (np_cra2 p)) ns"

definition for_each_contact :: "real \<Rightarrow> neighbor_pair list \<Rightarrow> ('s \<Rightarrow> neighbor_pair \<Rightarrow> 's) \<Rightarrow> 's \<Rightarrow> 's" where
  "for_each_contact search_radius ns func s = foldl func s (contacts search_radius ns)"

subsection \<open>\<^verbatim>\<open>std::to_string\<close> on a counter\<close>

definition digit_char :: "nat \<Rightarrow> char" where
  "digit_char d = ''0123456789'' ! d"

fun to_string :: "nat \<Rightarrow> string" where
  "to_string n = (if n < 10 then [digit_char n] else to_string (n div 10) @ [digit_char (n mod 10)])"

declare to_string.simps [simp del]

subsection \<open>The visitor and \<^verbatim>\<open>assign_connections\<close>\<close>

text \<open>
  \<^verbatim>\<open>
  void assign_connections(Model& model, Structure& st) {
    NeighborSearch ns(model, st.cell, 5.0);
    ns.populate();
    ContactSearch contacts(3.5f);
    contacts.ignore = ContactSearch::Ignore::AdjacentResidues;
    int counter = 0;
    contacts.for_each_contact(ns, [&](const CRA& cra1, const CRA& cra2,
                                      int image_idx, float dist_sq) {
      float r1 = cra1.atom->element.covalent_r();
      float r2 = cra2.atom->element.covalent_r();
      if (dist_sq > sq((r1 + r2) + 0.5))
        return;
      if (st.find_connection_by_cra(cra1, cra2))
        return;
      Connection conn;
      conn.name = "added" + std::to_string(++counter);
      conn.type = Connection::Covale;
      conn.asu = (image_idx == 0 ? Asu::Same : Asu::Different);
      conn.partner1 = make_address(*cra1.chain, *cra1.residue, *cra1.atom);
      conn.partner2 = make_address(*cra2.chain, *cra2.residue, *cra2.atom);
      conn.reported_distance = std::sqrt(dist_sq);
      printf("Added link %s - %s\n", atom_str(cra1).c_str(), atom_str(cra2).c_str());
      st.connections.push_back(conn);
    });
  }
  \<close>
  What the visitor captures by reference and changes: the counter, the connections of
  the structure, and the standard output (one entry per \<^verbatim>\<open>printf\<close>). The counter is an
  \<^verbatim>\<open>int\<close> that only counts up from 0; it is a \<open>nat\<close> here (an overflow past
  \<open>2\<^sup>3\<^sup>1 - 1\<close> links is not modelled).

  Parameters, for what is outside the sources: \<open>covalent_r\<close> is the table of covalent
  radii by element, \<open>atom_str\<close> the text printed for an atom, and \<open>neighbor_search\<close>
  the populated \<^verbatim>\<open>NeighborSearch\<close> as the sequence of neighbour pairs it yields for a
  model and a radius.
\<close>

record link_state =
  counter :: nat
  conns :: "connection list"
  printed :: "string list"

text \<open>
  The arithmetic of the visitor. \<^verbatim>\<open>r1\<close>, \<^verbatim>\<open>r2\<close> and \<^verbatim>\<open>dist_sq\<close> are of type \<^verbatim>\<open>float\<close>, so
  \<^verbatim>\<open>r1 + r2\<close> is an addition of \<^verbatim>\<open>float\<close>; the literal \<^verbatim>\<open>0.5\<close> is a \<^verbatim>\<open>double\<close>, so the
  second addition, the square (\<^verbatim>\<open>sq(x)\<close> is \<^verbatim>\<open>x * x\<close>) and the comparison are taken in
  \<^verbatim>\<open>double\<close>, to which a \<^verbatim>\<open>float\<close> converts without change. \<^verbatim>\<open>std::sqrt\<close> of a \<^verbatim>\<open>float\<close> is
  the square root of type \<^verbatim>\<open>float\<close>.

  Each operation returns the exact result rounded to the precision of its type, 24
  binary digits for \<^verbatim>\<open>float\<close> and 53 for \<^verbatim>\<open>double\<close>, to the nearest value and to the even
  one of two nearest (IEEE 754, the default rounding): \<open>round_to p x\<close> scales \<open>x\<close> by
  the power of two that brings it to \<open>p\<close> digits before the point, rounds to an
  integer, and scales back. An expression of type \<^verbatim>\<open>float\<close> is taken to be evaluated in
  \<^verbatim>\<open>float\<close> (no excess precision, no contraction of a multiplication and an addition
  into one operation). The range of the exponent is not modelled: no overflow to
  infinity, no subnormal numbers, no NaN.
\<close>

definition pow2 :: "int \<Rightarrow> real" where
  "pow2 e = (if 0 \<le> e then 2 ^ nat e else 1 / 2 ^ nat (- e))"

definition round_even :: "real \<Rightarrow> int" where
  "round_even y =
     (let f = \<lfloor>y\<rfloor>
      in if y - of_int f < 1 / 2 then f
         else if 1 / 2 < y - of_int f then f + 1
         else if even f then f else f + 1)"

definition round_to :: "nat \<Rightarrow> real \<Rightarrow> real" where
  "round_to p x =
     (if x = 0 then 0
      else (let e = \<lfloor>log 2 \<bar>x\<bar>\<rfloor> - int p + 1
            in of_int (round_even (x / pow2 e)) * pow2 e))"

definition float_add :: "real \<Rightarrow> real \<Rightarrow> real" where
  "float_add a b = round_to 24 (a + b)"

definition double_add :: "real \<Rightarrow> real \<Rightarrow> real" where
  "double_add a b = round_to 53 (a + b)"

definition double_mul :: "real \<Rightarrow> real \<Rightarrow> real" where
  "double_mul a b = round_to 53 (a * b)"

definition float_sqrt :: "real \<Rightarrow> real" where
  "float_sqrt a = round_to 24 (sqrt a)"

definition sq :: "real \<Rightarrow> real" where
  "sq x = double_mul x x"

text \<open>The Connection built in the visitor, given the value of the counter after \<^verbatim>\<open>++counter\<close>.\<close>

definition new_connection :: "nat \<Rightarrow> neighbor_pair \<Rightarrow> connection" where
  "new_connection k p =
     \<lparr>conn_name = ''added'' @ to_string k,
      conn_type = Covale,
      conn_asu = (if image_idx p = 0 then Same else Different),
      partner1 = make_address (cra_chain (np_cra1 p)) (cra_residue (np_cra1 p)) (cra_atom (np_cra1 p)),
      partner2 = make_address (cra_chain (np_cra2 p)) (cra_residue (np_cra2 p)) (cra_atom (np_cra2 p)),
      reported_distance = float_sqrt (dist_sq p)\<rparr>"

definition visit_contact :: "(string \<Rightarrow> real) \<Rightarrow> (cra \<Rightarrow> string) \<Rightarrow> link_state \<Rightarrow> neighbor_pair \<Rightarrow> link_state" where
  "visit_contact covalent_r atom_str s p =
     (let r1 = covalent_r (element (cra_atom (np_cra1 p)));
          r2 = covalent_r (element (cra_atom (np_cra2 p)))
      in if dist_sq p > sq (double_add (float_add r1 r2) 0.5) then s
         else if find_connection_by_cra (conns s) (np_cra1 p) (np_cra2 p) \<noteq> None then s
         else \<lparr>counter = Suc (counter s),
               conns = conns s @ [new_connection (Suc (counter s)) p],
               printed = printed s @
                 [''Added link '' @ atom_str (np_cra1 p) @ '' - '' @ atom_str (np_cra2 p)]\<rparr>)"

text \<open>The result: the structure with its connections updated, and the lines printed.\<close>

definition assign_connections ::
  "(string \<Rightarrow> real) \<Rightarrow> (cra \<Rightarrow> string) \<Rightarrow> (model \<Rightarrow> real \<Rightarrow> neighbor_pair list) \<Rightarrow>
   model \<Rightarrow> Structure \<Rightarrow> Structure \<times> string list" where
  "assign_connections covalent_r atom_str neighbor_search m st =
     (let ns = neighbor_search m 5;
          s = for_each_contact 3.5 ns (visit_contact covalent_r atom_str)
                \<lparr>counter = 0, conns = connections st, printed = []\<rparr>
      in (st\<lparr>connections := conns s\<rparr>, printed s))"

text \<open>The connections a run of \<^verbatim>\<open>assign_connections\<close> has pushed onto the structure's list.\<close>

definition added_connections ::
  "(string \<Rightarrow> real) \<Rightarrow> (cra \<Rightarrow> string) \<Rightarrow> (model \<Rightarrow> real \<Rightarrow> neighbor_pair list) \<Rightarrow>
   model \<Rightarrow> Structure \<Rightarrow> connection list" where
  "added_connections covalent_r atom_str neighbor_search m st =
     drop (length (connections st))
       (connections (fst (assign_connections covalent_r atom_str neighbor_search m st)))"

subsection \<open>Notions used to state the properties of link detection\<close>

text \<open>The address under which a Connection records an atom.\<close>

definition address_of :: "cra \<Rightarrow> atom_address" where
  "address_of c = make_address (cra_chain c) (cra_residue c) (cra_atom c)"

text \<open>
  The bonding threshold of a pair as the program computes it, \<^verbatim>\<open>(r1 + r2) + 0.5\<close>, and
  the visitor's first test read positively.
\<close>

definition threshold :: "(string \<Rightarrow> real) \<Rightarrow> neighbor_pair \<Rightarrow> real" where
  "threshold covalent_r p =
     double_add (float_add (covalent_r (element (cra_atom (np_cra1 p))))
                           (covalent_r (element (cra_atom (np_cra2 p))))) 0.5"

text \<open>
  The threshold in exact arithmetic: the sum of the two covalent radii and 0.5 as real
  numbers, with no rounding.
\<close>

definition exact_threshold :: "(string \<Rightarrow> real) \<Rightarrow> neighbor_pair \<Rightarrow> real" where
  "exact_threshold covalent_r p =
     covalent_r (element (cra_atom (np_cra1 p))) + covalent_r (element (cra_atom (np_cra2 p))) + 0.5"

definition within_threshold :: "(string \<Rightarrow> real) \<Rightarrow> neighbor_pair \<Rightarrow> bool" where
  "within_threshold covalent_r p = (dist_sq p \<le> sq (threshold covalent_r p))"

text \<open>
  A pair is settled with respect to a list of connections when the visitor returns early
  on it: it fails the threshold test, or a connection between its atoms is found.
\<close>

definition settled :: "(string \<Rightarrow> real) \<Rightarrow> connection list \<Rightarrow> neighbor_pair \<Rightarrow> bool" where
  "settled covalent_r cs p =
     (\<not> within_threshold covalent_r p \<or> find_connection_by_cra cs (np_cra1 p) (np_cra2 p) \<noteq> None)"

text \<open>The pairs on which \<^verbatim>\<open>assign_connections\<close> calls the visitor, in order.\<close>

definition visited :: "(model \<Rightarrow> real \<Rightarrow> neighbor_pair list) \<Rightarrow> model \<Rightarrow> neighbor_pair list" where
  "visited neighbor_search m = contacts 3.5 (neighbor_search m 5)"

text \<open>The connections built from a list of pairs when the counter stands at \<open>c\<close>.\<close>

fun numbered_links :: "nat \<Rightarrow> neighbor_pair list \<Rightarrow> connection list" where
  "numbered_links c [] = []"
| "numbered_links c (q # acc) = new_connection (Suc c) q # numbered_links (Suc c) acc"

section \<open>Monomer resolution and ad-hoc synthesis: \<^verbatim>\<open>GEMMI_MAIN\<close> (src/prog/prep.cpp)\<close>

subsection \<open>The monomer library\<close>

text \<open>
  \<^verbatim>\<open>MonLib::monomers\<close> is a \<^verbatim>\<open>std::map<std::string, ChemComp>\<close>: a finite map from
  residue names to definitions. The content of a \<^verbatim>\<open>ChemComp\<close> is never inspected by the
  program, so its type is a parameter \<open>'cc\<close>.
\<close>

type_synonym 'cc monomers = "string \<Rightarrow> 'cc option"

text \<open>\<^verbatim>\<open>std::map::emplace\<close>: inserts only if the key is not in the map yet.\<close>

definition emplace :: "'cc monomers \<Rightarrow> string \<Rightarrow> 'cc \<Rightarrow> 'cc monomers" where
  "emplace m k v = (if m k = None then m(k \<mapsto> v) else m)"

text \<open>
  A CIF document, as far as the program is concerned: the monomer definitions it holds,
  in file order, each under its name.
\<close>

type_synonym 'cc document = "(string \<times> 'cc) list"

text \<open>
  Modelled from the spec: \<^verbatim>\<open>MonLib::read_monomer_doc\<close> (gemmi, not among the sources).
  The spec's data model: at most one definition per name in the resolved library at any
  time; later insertions with the same name are rejected, not merged (first write wins).
\<close>

definition read_monomer_doc :: "'cc monomers \<Rightarrow> 'cc document \<Rightarrow> 'cc monomers" where
  "read_monomer_doc m doc = foldl (\<lambda>m' (name, cc). emplace m' name cc) m doc"

text \<open>
  Modelled from the spec: \<^verbatim>\<open>MonLib::read_monomer_cif\<close> (gemmi, not among the sources):
  reads the file with the given reader and loads its definitions as
  \<^verbatim>\<open>read_monomer_doc\<close> does.
\<close>

definition read_monomer_cif :: "'cc monomers \<Rightarrow> string \<Rightarrow> (string \<Rightarrow> 'cc document) \<Rightarrow> 'cc monomers" where
  "read_monomer_cif m path read_cif = read_monomer_doc m (read_cif path)"

text \<open>
  Modelled from the spec: \<^verbatim>\<open>MonLib::read_monomer_lib\<close> (gemmi, not among the sources).
  The spec's interface of the monomer-library source: given a directory path and the
  requested residue names, it returns definitions or an error string; a read error is
  recorded (appended to \<^verbatim>\<open>*error\<close>) and is not fatal, and an insertion under a name
  already defined is rejected. The result holds the library, the error text and the
  names looked up in the source, in order.
\<close>

fun read_monomer_lib ::
  "'cc monomers \<Rightarrow> string \<Rightarrow> string list \<Rightarrow> (string \<Rightarrow> string \<Rightarrow> string + 'cc) \<Rightarrow>
   'cc monomers \<times> string \<times> string list" where
  "read_monomer_lib m dir [] source = (m, [], [])"
| "read_monomer_lib m dir (name # rest) source =
     (case source dir name of
        Inr cc \<Rightarrow>
          (case read_monomer_lib (emplace m name cc) dir rest source of
             (m', err, looked) \<Rightarrow> (m', err, name # looked))
      | Inl e \<Rightarrow>
          (case read_monomer_lib m dir rest source of
             (m', err, looked) \<Rightarrow> (m', e @ err, name # looked)))"

text \<open>
  Modelled from the spec: \<^verbatim>\<open>Model::get_all_residue_names\<close> (gemmi, not among the
  sources): the list of distinct residue names present in the model.
\<close>

definition get_all_residue_names :: "model \<Rightarrow> string list" where
  "get_all_residue_names m = remdups (map (\<lambda>p. res_name (pointee p)) (traversal m))"

text \<open>
  Modelled from the spec: \<^verbatim>\<open>vector_remove_if\<close> (gemmi, not among the sources): removes
  from the vector the elements that satisfy the predicate, keeping the order of the
  others (the spec's ``compute the still-unresolved subset'').
\<close>

definition vector_remove_if :: "'a list \<Rightarrow> ('a \<Rightarrow> bool) \<Rightarrow> 'a list" where
  "vector_remove_if v condition = filter (\<lambda>x. \<not> condition x) v"

subsection \<open>The program\<close>

text \<open>
  What the program is given from outside: the reader of CIF files
  (\<^verbatim>\<open>read_cif_gz\<close>, here returning the monomer definitions of the file at a path), the
  installed monomer library as the source that \<^verbatim>\<open>read_monomer_lib\<close> consults
  (directory and residue name to an error text or a definition), and
  \<^verbatim>\<open>make_chemcomp_with_restraints\<close>, the geometry inference that derives a definition
  from one residue.
\<close>

record 'cc services =
  read_cif_gz :: "string \<Rightarrow> 'cc document"
  monomer_source :: "string \<Rightarrow> string \<Rightarrow> string + 'cc"
  make_chemcomp_with_restraints :: "residue \<Rightarrow> 'cc"

text \<open>
  The command line and the environment: \<^verbatim>\<open>--monomers\<close>, \<^verbatim>\<open>$CLIBD_MON\<close>, every
  \<^verbatim>\<open>--lib\<close> and every \<^verbatim>\<open>--low\<close> in the order given, and \<^verbatim>\<open>--auto-ligand\<close>
  (\<^verbatim>\<open>p.is_yes(AutoLigand, false)\<close>).
\<close>

record options =
  opt_monomers :: "string option"
  env_CLIBD_MON :: "string option"
  opt_lib :: "string list"
  opt_low :: "string list"
  opt_auto_ligand :: bool

text \<open>
  \<^verbatim>\<open>
  auto read_user_file = [&](const char* path) {
    if (verbose)
      printf("Reading user's library %s...\n", path);
    if (path[0] == '+' && path[1] == '\0')
      monlib.read_monomer_doc(st_doc);
    else
      monlib.read_monomer_cif(path, read_cif_gz);
  };
  \<close>
  Output that is printed only under \<^verbatim>\<open>--verbose\<close> is left out of the model; every
  unconditional \<^verbatim>\<open>printf\<close> is in it.
\<close>

definition read_user_file :: "'cc services \<Rightarrow> 'cc document \<Rightarrow> 'cc monomers \<Rightarrow> string \<Rightarrow> 'cc monomers" where
  "read_user_file sv st_doc monlib path =
     (if path = ''+'' then read_monomer_doc monlib st_doc
      else read_monomer_cif monlib path (read_cif_gz sv))"

text \<open>The loops \<^verbatim>\<open>for (opt = p.options[Libin]; opt; opt = opt->next()) read_user_file(opt->arg)\<close>.\<close>

definition read_user_files :: "'cc services \<Rightarrow> 'cc document \<Rightarrow> 'cc monomers \<Rightarrow> string list \<Rightarrow> 'cc monomers" where
  "read_user_files sv st_doc monlib paths = foldl (read_user_file sv st_doc) monlib paths"

text \<open>
  Lines 103 to 133: the library is filled from the \<^verbatim>\<open>--lib\<close> files, then from the
  installed library for the names still needed, then from the \<^verbatim>\<open>--low\<close> files.
  \<^verbatim>\<open>
  MonLib monlib;
  for (const option::Option* opt = p.options[Libin]; opt; opt = opt->next())
    read_user_file(opt->arg);
  std::vector<std::string> needed = model0.get_all_residue_names();
  vector_remove_if(needed, [&](const std::string& s) { return monlib.monomers.count(s); });
  std::string error;
  monlib.read_monomer_lib(monomer_dir, needed, read_cif_gz, &error);
  if (!error.empty())
    printf("%s", error.c_str());
  for (const option::Option* opt = p.options[Libin2]; opt; opt = opt->next())
    read_user_file(opt->arg);
  vector_remove_if(needed, [&](const std::string& s) { return monlib.monomers.count(s); });
  \<close>
\<close>

record 'cc resolution =
  res_monlib :: "'cc monomers"
  res_needed :: "string list"
  res_printed :: "string list"
  res_looked_up :: "string list"

definition resolve_monomers ::
  "'cc services \<Rightarrow> options \<Rightarrow> string \<Rightarrow> model \<Rightarrow> 'cc document \<Rightarrow> 'cc resolution" where
  "resolve_monomers sv opts monomer_dir model0 st_doc =
     (let monlib1 = read_user_files sv st_doc Map.empty (opt_lib opts);
          needed1 = vector_remove_if (get_all_residue_names model0) (\<lambda>s. monlib1 s \<noteq> None)
      in case read_monomer_lib monlib1 monomer_dir needed1 (monomer_source sv) of
           (monlib2, error, looked) \<Rightarrow>
             (let monlib3 = read_user_files sv st_doc monlib2 (opt_low opts)
              in \<lparr>res_monlib = monlib3,
                  res_needed = vector_remove_if needed1 (\<lambda>s. monlib3 s \<noteq> None),
                  res_printed = (if error \<noteq> [] then [error] else []),
                  res_looked_up = looked\<rparr>))"

text \<open>
  The synthesis loop (lines 141 to 144; the same loop, over \<^verbatim>\<open>resnames\<close>, is at lines 145
  to 148 of src/src/prep.cpp):
  \<^verbatim>\<open>
  for (const std::string& name : needed)
    if (monlib.monomers.find(name) == monlib.monomers.end())
      if (const Residue* res = find_most_complete_residue(name, model0))
        monlib.monomers.emplace(name, make_chemcomp_with_restraints(*res));
  \<close>
\<close>

definition synthesize_one :: "'cc services \<Rightarrow> model \<Rightarrow> 'cc monomers \<Rightarrow> string \<Rightarrow> 'cc monomers" where
  "synthesize_one sv model0 monlib name =
     (if monlib name = None then
        (case find_most_complete_residue name model0 of
           Some res \<Rightarrow> emplace monlib name (make_chemcomp_with_restraints sv (pointee res))
         | None \<Rightarrow> monlib)
      else monlib)"

definition synthesize_missing :: "'cc services \<Rightarrow> model \<Rightarrow> 'cc monomers \<Rightarrow> string list \<Rightarrow> 'cc monomers" where
  "synthesize_missing sv model0 monlib needed = foldl (synthesize_one sv model0) monlib needed"

text \<open>
  How a run ends, as far as the model follows it: \<open>Return_1 msg\<close> is \<^verbatim>\<open>return 1\<close> after
  \<open>msg\<close> was written to the standard error (directly, or by the \<^verbatim>\<open>catch\<close> block for an
  exception thrown by \<^verbatim>\<open>fail\<close>); \<open>Prepared monlib\<close> is the run going on, with this
  monomer library, to the cis flags, the link detection and the topology.
\<close>

datatype 'cc progress = Return_1 string | Prepared "'cc monomers"

record 'cc run =
  run_printed :: "string list"
  run_looked_up :: "string list"
  run_progress :: "'cc progress"

definition missing_warning :: "string \<Rightarrow> string" where
  "missing_warning name = ''WARNING: definition not found for '' @ name @ ''.''"

text \<open>
  \<^verbatim>\<open>
  if (!needed.empty()) {
    for (const std::string& name : needed)
      printf("WARNING: definition not found for %s.\n", name.c_str());
    bool make_new_ligands = p.is_yes(AutoLigand, false);
    if (!make_new_ligands)
      fail("Missing monomer definitions");
    for (const std::string& name : needed) ...   // the synthesis loop
    printf("WARNING: Using ad-hoc restraints for missing monomers.\n"
           "WARNING: Restraints generated by a dedicated program would be better.\n");
  }
  \<close>
\<close>

definition handle_needed :: "'cc services \<Rightarrow> options \<Rightarrow> model \<Rightarrow> 'cc resolution \<Rightarrow> 'cc run" where
  "handle_needed sv opts model0 r =
     (let needed = res_needed r
      in if needed \<noteq> [] then
           (let out = res_printed r @ map missing_warning needed
            in if \<not> opt_auto_ligand opts then
                 \<lparr>run_printed = out, run_looked_up = res_looked_up r,
                  run_progress = Return_1 ''ERROR: Missing monomer definitions''\<rparr>
               else
                 \<lparr>run_printed = out @
                    [''WARNING: Using ad-hoc restraints for missing monomers.'',
                     ''WARNING: Restraints generated by a dedicated program would be better.''],
                  run_looked_up = res_looked_up r,
                  run_progress = Prepared (synthesize_missing sv model0 (res_monlib r) needed)\<rparr>)
         else
           \<lparr>run_printed = res_printed r, run_looked_up = res_looked_up r,
            run_progress = Prepared (res_monlib r)\<rparr>)"

text \<open>Lines 103 to 147 together.\<close>

definition prepare_monomers ::
  "'cc services \<Rightarrow> options \<Rightarrow> string \<Rightarrow> model \<Rightarrow> 'cc document \<Rightarrow> 'cc run" where
  "prepare_monomers sv opts monomer_dir model0 st_doc =
     handle_needed sv opts model0 (resolve_monomers sv opts monomer_dir model0 st_doc)"

text \<open>
  The entry point up to line 147. The structure and the document \<^verbatim>\<open>st_doc\<close> are what
  \<^verbatim>\<open>read_structure_gz\<close> has read from the input file.
  \<^verbatim>\<open>
  const char* monomer_dir = p.options[Monomers] ? p.options[Monomers].arg
                                                : std::getenv("CLIBD_MON");
  if (monomer_dir == nullptr || *monomer_dir == '\0') {
    fprintf(stderr, "Set $CLIBD_MON or use option --monomers.\n");
    return 1;
  }
  ...
  if (st.models.empty()) {
    fprintf(stderr, "No models found in the input file.\n");
    return 1;
  }
  Model& model0 = st.models[0];
  \<close>
\<close>

definition monomer_dir_of :: "options \<Rightarrow> string option" where
  "monomer_dir_of opts = (case opt_monomers opts of Some d \<Rightarrow> Some d | None \<Rightarrow> env_CLIBD_MON opts)"

definition GEMMI_MAIN :: "'cc services \<Rightarrow> options \<Rightarrow> Structure \<Rightarrow> 'cc document \<Rightarrow> 'cc run" where
  "GEMMI_MAIN sv opts st st_doc =
     (case monomer_dir_of opts of
        None \<Rightarrow> \<lparr>run_printed = [], run_looked_up = [],
                 run_progress = Return_1 ''Set $CLIBD_MON or use option --monomers.''\<rparr>
      | Some monomer_dir \<Rightarrow>
          if monomer_dir = [] then
            \<lparr>run_printed = [], run_looked_up = [],
             run_progress = Return_1 ''Set $CLIBD_MON or use option --monomers.''\<rparr>
          else
            (case models st of
               [] \<Rightarrow> \<lparr>run_printed = [], run_looked_up = [],
                       run_progress = Return_1 ''No models found in the input file.''\<rparr>
             | model0 # others \<Rightarrow> prepare_monomers sv opts monomer_dir model0 st_doc))"

subsection \<open>Notions used to state the properties of monomer resolution\<close>

text \<open>The document a \<^verbatim>\<open>--lib\<close> or \<^verbatim>\<open>--low\<close> argument names.\<close>

definition user_document :: "'cc services \<Rightarrow> 'cc document \<Rightarrow> string \<Rightarrow> 'cc document" where
  "user_document sv st_doc path = (if path = ''+'' then st_doc else read_cif_gz sv path)"

text \<open>
  The definitions of the override libraries (\<^verbatim>\<open>--lib\<close>) taken together: for a name
  defined more than once, the first definition in the order of the command line and of
  the files.
\<close>

definition override_definitions :: "'cc services \<Rightarrow> 'cc document \<Rightarrow> options \<Rightarrow> 'cc monomers" where
  "override_definitions sv st_doc opts = map_of (concat (map (user_document sv st_doc) (opt_lib opts)))"

text \<open>The residue names of the model that have no definition in a library.\<close>

definition unmet_names :: "'cc monomers \<Rightarrow> model \<Rightarrow> string list" where
  "unmet_names monlib model0 = filter (\<lambda>n. monlib n = None) (get_all_residue_names model0)"

section \<open>Example inputs\<close>

subsection \<open>A model with a missing monomer\<close>

text \<open>
  Chain A holds an alanine and a ligand LIG with 5 atoms, chain B three more LIG with 8,
  3 and 8 atoms, chain C a residue XYZ. The user's library \<^verbatim>\<open>user.cif\<close> defines LIG, the
  installed library ALA and LIG, the low-priority library \<^verbatim>\<open>low.cif\<close> LIG; nothing
  defines XYZ.
\<close>

definition ex_atom :: "string \<Rightarrow> string \<Rightarrow> atom" where
  "ex_atom nm el = \<lparr>atom_name = nm, element = el, pos = (0, 0, 0)\<rparr>"

definition ex_residue :: "string \<Rightarrow> int \<Rightarrow> nat \<Rightarrow> residue" where
  "ex_residue nm i n = \<lparr>res_name = nm, seqnum = i, atoms = replicate n (ex_atom ''C1'' ''C'')\<rparr>"

definition ex_model :: model where
  "ex_model = \<lparr>chains =
     [\<lparr>chain_name = ''A'', residues = [ex_residue ''ALA'' 1 5, ex_residue ''LIG'' 2 5]\<rparr>,
      \<lparr>chain_name = ''B'', residues = [ex_residue ''LIG'' 1 8, ex_residue ''LIG'' 2 3, ex_residue ''LIG'' 3 8]\<rparr>,
      \<lparr>chain_name = ''C'', residues = [ex_residue ''XYZ'' 1 4]\<rparr>]\<rparr>"

definition ex_services :: "string services" where
  "ex_services =
     \<lparr>read_cif_gz = (\<lambda>path. if path = ''user.cif'' then [(''LIG'', ''LIG (user.cif)'')]
                            else if path = ''low.cif'' then [(''LIG'', ''LIG (low.cif)'')]
                            else []),
      monomer_source = (\<lambda>dir name. if name = ''ALA'' then Inr ''ALA (installed)''
                                   else if name = ''LIG'' then Inr ''LIG (installed)''
                                   else Inl (''Monomer not in the library: '' @ name @ ''.'')),
      make_chemcomp_with_restraints = (\<lambda>res. ''ad-hoc '' @ res_name res)\<rparr>"

definition ex_options :: "bool \<Rightarrow> options" where
  "ex_options auto_ligand =
     \<lparr>opt_monomers = None, env_CLIBD_MON = Some ''/mon'',
      opt_lib = [''user.cif''], opt_low = [''low.cif''], opt_auto_ligand = auto_ligand\<rparr>"

definition ex_structure :: Structure where
  "ex_structure = \<lparr>models = [ex_model], connections = []\<rparr>"

subsection \<open>A model with contacts\<close>

text \<open>
  Chain A holds CYS 1, GLY 2 and CYS 5, chain L a ligand. The neighbour search yields
  five pairs: the peptide bond between CYS 1 and GLY 2 (adjacent residues), the two
  sulphur atoms of CYS 1 and CYS 5 at 2.03, an atom pair 3 apart, a contact of CYS 5 with
  the ligand in a symmetry image at distance 2, and a pair 4 apart. The structure
  already holds a connection, named ``added1'', between GLY 2 and the ligand.

  The squared distances and the covalent radii are values of type \<^verbatim>\<open>float\<close>: the squared
  distance of the two sulphur atoms is \<open>4321077 / 2\<^sup>2\<^sup>0\<close>, the \<^verbatim>\<open>float\<close> nearest to 4.1209, and
  the radii are the \<^verbatim>\<open>float\<close> nearest to 1.05 (S), 0.76 (C), 0.71 (N) and 0.57 (F), the
  values of the literals \<^verbatim>\<open>1.05f\<close>, \<^verbatim>\<open>0.76f\<close>, \<^verbatim>\<open>0.71f\<close> and \<^verbatim>\<open>0.57f\<close>.
\<close>

definition ex_cys1 :: residue where
  "ex_cys1 = \<lparr>res_name = ''CYS'', seqnum = 1, atoms = [ex_atom ''SG'' ''S'', ex_atom ''C'' ''C'']\<rparr>"

definition ex_gly2 :: residue where
  "ex_gly2 = \<lparr>res_name = ''GLY'', seqnum = 2, atoms = [ex_atom ''N'' ''N'']\<rparr>"

definition ex_cys5 :: residue where
  "ex_cys5 = \<lparr>res_name = ''CYS'', seqnum = 5, atoms = [ex_atom ''SG'' ''S'']\<rparr>"

definition ex_lig1 :: residue where
  "ex_lig1 = \<lparr>res_name = ''LIG'', seqnum = 1, atoms = [ex_atom ''C1'' ''C'', ex_atom ''F1'' ''F'']\<rparr>"

definition ex_chain_A :: chain where
  "ex_chain_A = \<lparr>chain_name = ''A'', residues = [ex_cys1, ex_gly2, ex_cys5]\<rparr>"

definition ex_chain_L :: chain where
  "ex_chain_L = \<lparr>chain_name = ''L'', residues = [ex_lig1]\<rparr>"

definition ex_link_model :: model where
  "ex_link_model = \<lparr>chains = [ex_chain_A, ex_chain_L]\<rparr>"

definition ex_cys1_SG :: cra where
  "ex_cys1_SG = \<lparr>cra_chain = ex_chain_A, cra_residue = ex_cys1, cra_atom = ex_atom ''SG'' ''S''\<rparr>"

definition ex_cys1_C :: cra where
  "ex_cys1_C = \<lparr>cra_chain = ex_chain_A, cra_residue = ex_cys1, cra_atom = ex_atom ''C'' ''C''\<rparr>"

definition ex_gly2_N :: cra where
  "ex_gly2_N = \<lparr>cra_chain = ex_chain_A, cra_residue = ex_gly2, cra_atom = ex_atom ''N'' ''N''\<rparr>"

definition ex_cys5_SG :: cra where
  "ex_cys5_SG = \<lparr>cra_chain = ex_chain_A, cra_residue = ex_cys5, cra_atom = ex_atom ''SG'' ''S''\<rparr>"

definition ex_lig1_C1 :: cra where
  "ex_lig1_C1 = \<lparr>cra_chain = ex_chain_L, cra_residue = ex_lig1, cra_atom = ex_atom ''C1'' ''C''\<rparr>"

definition ex_lig1_F1 :: cra where
  "ex_lig1_F1 = \<lparr>cra_chain = ex_chain_L, cra_residue = ex_lig1, cra_atom = ex_atom ''F1'' ''F''\<rparr>"

definition ex_peptide :: neighbor_pair where
  "ex_peptide = \<lparr>np_cra1 = ex_cys1_C, np_cra2 = ex_gly2_N, image_idx = 0, dist_sq = 1.75\<rparr>"

definition ex_disulfide :: neighbor_pair where
  "ex_disulfide = \<lparr>np_cra1 = ex_cys1_SG, np_cra2 = ex_cys5_SG, image_idx = 0,
                    dist_sq = 4321077 / 2 ^ 20\<rparr>"

definition ex_apart :: neighbor_pair where
  "ex_apart = \<lparr>np_cra1 = ex_gly2_N, np_cra2 = ex_lig1_C1, image_idx = 0, dist_sq = 9\<rparr>"

definition ex_across :: neighbor_pair where
  "ex_across = \<lparr>np_cra1 = ex_cys5_SG, np_cra2 = ex_lig1_C1, image_idx = 3, dist_sq = 4\<rparr>"

definition ex_remote :: neighbor_pair where
  "ex_remote = \<lparr>np_cra1 = ex_cys1_SG, np_cra2 = ex_lig1_C1, image_idx = 1, dist_sq = 16\<rparr>"

definition ex_neighbor_search :: "model \<Rightarrow> real \<Rightarrow> neighbor_pair list" where
  "ex_neighbor_search m radius = [ex_peptide, ex_disulfide, ex_apart, ex_across, ex_remote]"

definition ex_covalent_r :: "string \<Rightarrow> real" where
  "ex_covalent_r el = (if el = ''S'' then round_to 24 1.05 else if el = ''C'' then round_to 24 0.76
                       else if el = ''N'' then round_to 24 0.71
                       else if el = ''F'' then round_to 24 0.57 else 1.5)"

definition ex_atom_str :: "cra \<Rightarrow> string" where
  "ex_atom_str c = chain_name (cra_chain c) @ ''/'' @ res_name (cra_residue c) @ ''/'' @ atom_name (cra_atom c)"

definition ex_old_link :: connection where
  "ex_old_link = \<lparr>conn_name = ''added1'', conn_type = Covale, conn_asu = Same,
     partner1 = address_of ex_gly2_N, partner2 = address_of ex_lig1_C1, reported_distance = 3\<rparr>"

definition ex_linked :: Structure where
  "ex_linked = \<lparr>models = [ex_link_model], connections = [ex_old_link]\<rparr>"

subsection \<open>Two contacts next to the threshold\<close>

text \<open>
  The same model with no connection yet, and a neighbour search that yields two pairs.
  The nitrogen of GLY 2 and the carbon of the ligand have the squared distance
  \<open>8138837 / 2\<^sup>2\<^sup>1\<close> (3.8808999061584473), the sulphur of CYS 5 and the fluorine of the
  ligand \<open>9425439 / 2\<^sup>2\<^sup>1\<close> (4.494399547576904); both are values of type \<^verbatim>\<open>float\<close>.
\<close>

definition ex_unlinked :: Structure where
  "ex_unlinked = \<lparr>models = [ex_link_model], connections = []\<rparr>"

definition ex_just_outside :: neighbor_pair where
  "ex_just_outside = \<lparr>np_cra1 = ex_gly2_N, np_cra2 = ex_lig1_C1, image_idx = 0,
                       dist_sq = 8138837 / 2 ^ 21\<rparr>"

definition ex_just_inside :: neighbor_pair where
  "ex_just_inside = \<lparr>np_cra1 = ex_cys5_SG, np_cra2 = ex_lig1_F1, image_idx = 0,
                      dist_sq = 9425439 / 2 ^ 21\<rparr>"

definition ex_boundary_search :: "model \<Rightarrow> real \<Rightarrow> neighbor_pair list" where
  "ex_boundary_search m radius = [ex_just_outside, ex_just_inside]"

section \<open>Properties of template selection\<close>

lemma scan_residues_foldl:
  "scan_residues name ci ri rs r = foldl (consider_residue name) r (number_residues ci ri rs)"
  by (induction rs arbitrary: ri r) simp_all

lemma scan_chains_foldl:
  "scan_chains name ci cs r = foldl (consider_residue name) r (number_chains ci cs)"
  by (induction cs arbitrary: ci r) (simp_all add: scan_residues_foldl)

lemma foldl_consider_filter:
  "foldl (consider_residue name) r xs =
   foldl (consider_residue name) r (filter (\<lambda>p. res_name (pointee p) = name) xs)"
  by (induction xs arbitrary: r) (simp_all add: consider_residue_def)

lemma Max_natoms_skip:
  assumes "ys \<noteq> []" and "natoms y < Max (set (map natoms ys))"
  shows "Max (set (map natoms (y # ys))) = Max (set (map natoms ys))"
proof -
  have "set (map natoms ys) \<noteq> {}" using assms(1) by simp
  then have "Max (insert (natoms y) (set (map natoms ys))) = max (natoms y) (Max (set (map natoms ys)))"
    by (intro Max_insert) simp_all
  then show ?thesis using assms(2) by (simp add: max_def)
qed

lemma Max_natoms_head:
  assumes "\<forall>z \<in> set ys. natoms z \<le> natoms y"
  shows "Max (set (map natoms (y # ys))) = natoms y"
  using assms by (intro Max_eqI) auto

lemma Max_natoms_above:
  assumes "z \<in> set ys" and "n < natoms z"
  shows "n < Max (set (map natoms ys))"
proof -
  have "natoms z \<le> Max (set (map natoms ys))" using assms(1) by simp
  then show ?thesis using assms(2) by linarith
qed

text \<open>
  The loop, started with a template \<open>b\<close> in hand, over residues that all carry the name:
  it keeps \<open>b\<close> unless a later residue has strictly more atoms, and then ends with the
  first of the largest.
\<close>

lemma foldl_consider_Some:
  assumes "\<forall>p \<in> set ys. res_name (pointee p) = name"
  shows "foldl (consider_residue name) (Some b) ys =
    (if \<exists>y \<in> set ys. natoms b < natoms y
     then find (\<lambda>p. natoms p = Max (set (map natoms ys))) ys else Some b)"
  using assms
proof (induction ys arbitrary: b)
  case Nil
  then show ?case by simp
next
  case (Cons y ys)
  have nm: "res_name (pointee y) = name" and rest: "\<forall>p \<in> set ys. res_name (pointee p) = name"
    using Cons.prems by simp_all
  show ?case
  proof (cases "natoms b < natoms y")
    case True
    then have step: "consider_residue name (Some b) y = Some y"
      using nm by (simp add: consider_residue_def natoms_def)
    show ?thesis
    proof (cases "\<exists>z \<in> set ys. natoms y < natoms z")
      case larger: True
      then obtain z where z: "z \<in> set ys" "natoms y < natoms z" by blast
      have gt: "natoms y < Max (set (map natoms ys))" using z by (rule Max_natoms_above)
      have mx: "Max (set (map natoms (y # ys))) = Max (set (map natoms ys))"
        using gt z by (intro Max_natoms_skip) auto
      show ?thesis using step Cons.IH [OF rest, of y] larger True gt mx by auto
    next
      case False
      then have "\<forall>z \<in> set ys. natoms z \<le> natoms y" by (auto simp: not_less)
      then have mx: "Max (set (map natoms (y # ys))) = natoms y" by (rule Max_natoms_head)
      show ?thesis using step Cons.IH [OF rest, of y] False True mx by auto
    qed
  next
    case False
    then have step: "consider_residue name (Some b) y = Some b"
      by (simp add: consider_residue_def natoms_def)
    show ?thesis
    proof (cases "\<exists>z \<in> set ys. natoms b < natoms z")
      case True
      then obtain z where z: "z \<in> set ys" "natoms b < natoms z" by blast
      have "natoms b < Max (set (map natoms ys))" using z by (rule Max_natoms_above)
      then have gt: "natoms y < Max (set (map natoms ys))" using False by linarith
      have mx: "Max (set (map natoms (y # ys))) = Max (set (map natoms ys))"
        using gt z by (intro Max_natoms_skip) auto
      show ?thesis using step Cons.IH [OF rest, of b] True gt mx by auto
    next
      case none: False
      show ?thesis using step Cons.IH [OF rest, of b] False none by auto
    qed
  qed
qed

lemma foldl_consider_None:
  assumes "\<forall>p \<in> set ys. res_name (pointee p) = name"
  shows "foldl (consider_residue name) None ys =
     find (\<lambda>p. natoms p = Max (set (map natoms ys))) ys"
proof (cases ys)
  case Nil
  then show ?thesis by simp
next
  case (Cons y zs)
  have nm: "res_name (pointee y) = name" and rest: "\<forall>p \<in> set zs. res_name (pointee p) = name"
    using assms Cons by simp_all
  have step: "consider_residue name None y = Some y"
    using nm by (simp add: consider_residue_def)
  show ?thesis
  proof (cases "\<exists>z \<in> set zs. natoms y < natoms z")
    case True
    then obtain z where z: "z \<in> set zs" "natoms y < natoms z" by blast
    have gt: "natoms y < Max (set (map natoms zs))" using z by (rule Max_natoms_above)
    have mx: "Max (set (map natoms (y # zs))) = Max (set (map natoms zs))"
      using gt z by (intro Max_natoms_skip) auto
    show ?thesis using step foldl_consider_Some [OF rest, of y] True gt mx Cons by auto
  next
    case False
    then have "\<forall>z \<in> set zs. natoms z \<le> natoms y" by (auto simp: not_less)
    then have mx: "Max (set (map natoms (y # zs))) = natoms y" by (rule Max_natoms_head)
    show ?thesis using step foldl_consider_Some [OF rest, of y] False mx Cons by auto
  qed
qed

lemma find_most_complete_residue_foldl:
  "find_most_complete_residue name m = foldl (consider_residue name) None (named name m)"
  unfolding find_most_complete_residue_def named_def traversal_def
  by (simp add: scan_chains_foldl foldl_consider_filter [symmetric])

text \<open>
  C2. For every residue name, \<^verbatim>\<open>find_most_complete_residue\<close> returns, among the residues
  of the model that carry the name, the one with the largest number of atoms, and of
  several with that largest number the first in chain/residue traversal order; it
  returns \<^verbatim>\<open>nullptr\<close> when no residue carries the name.
\<close>

theorem find_most_complete_residue_largest_first:
  "find_most_complete_residue name m = largest_first name m"
proof -
  have "foldl (consider_residue name) None (named name m) = largest_first name m"
    unfolding largest_first_def by (rule foldl_consider_None) (simp add: named_def)
  then show ?thesis by (simp add: find_most_complete_residue_foldl)
qed

text \<open>
  In the example model the residues named LIG have 5, 8, 3 and 8 atoms: the template is
  the first residue of chain B, the first of the two with 8 atoms.
\<close>

theorem find_most_complete_residue_largest_first_witness:
  "map natoms (named ''LIG'' ex_model) = [5, 8, 3, 8] \<and>
   find_most_complete_residue ''LIG'' ex_model = Some ((1, 0), ex_residue ''LIG'' 1 8)"
proof -
  have named: "named ''LIG'' ex_model =
      [((0, 1), ex_residue ''LIG'' 2 5), ((1, 0), ex_residue ''LIG'' 1 8),
       ((1, 1), ex_residue ''LIG'' 2 3), ((1, 2), ex_residue ''LIG'' 3 8)]"
    by (simp add: named_def traversal_def pointee_def ex_model_def ex_residue_def)
  have counts: "map natoms (named ''LIG'' ex_model) = [5, 8, 3, 8]"
    unfolding named by (simp add: natoms_def pointee_def ex_residue_def)
  have "largest_first ''LIG'' ex_model = Some ((1, 0), ex_residue ''LIG'' 1 8)"
    unfolding largest_first_def counts unfolding named
    by (simp add: natoms_def pointee_def ex_residue_def)
  then show ?thesis
    using counts find_most_complete_residue_largest_first [of "''LIG''" ex_model] by simp
qed

section \<open>Properties of link detection\<close>

subsection \<open>Rounding\<close>

lemma pow2_powr: "pow2 e = 2 powr (of_int e)"
  by (simp add: pow2_def powr_int)

lemma pow2_pos: "0 < pow2 e"
  by (simp add: pow2_powr)

lemma pow2_add: "pow2 (a + b) = pow2 a * pow2 b"
  by (simp add: pow2_powr powr_add)

lemma floor_log2_eq:
  assumes "pow2 k \<le> x" and "x < pow2 (k + 1)"
  shows "\<lfloor>log 2 x\<rfloor> = k"
proof -
  have "0 < x" using assms(1) pow2_pos [of k] by linarith
  then show ?thesis
    using assms by (simp add: floor_log_eq_powr_iff pow2_powr)
qed

lemma floor_log2_bounds:
  assumes "0 < x"
  shows "pow2 \<lfloor>log 2 x\<rfloor> \<le> x \<and> x < pow2 (\<lfloor>log 2 x\<rfloor> + 1)"
  using assms floor_log_eq_powr_iff [of x 2 "\<lfloor>log 2 x\<rfloor>"] by (simp add: pow2_powr)

text \<open>Rounding to an integer moves a number by at most one half.\<close>

lemma round_even_error: "\<bar>of_int (round_even y) - y\<bar> \<le> 1 / 2"
  unfolding round_even_def Let_def by (auto; linarith)

lemma round_even_eqI:
  assumes "of_int n - 1 / 2 < y" and "y < of_int n + 1 / 2"
  shows "round_even y = n"
proof -
  have "\<lfloor>y\<rfloor> = n \<or> \<lfloor>y\<rfloor> = n - 1" using assms by linarith
  then show ?thesis
  proof
    assume "\<lfloor>y\<rfloor> = n"
    then show ?thesis using assms by (simp add: round_even_def Let_def)
  next
    assume "\<lfloor>y\<rfloor> = n - 1"
    then show ?thesis using assms by (simp add: round_even_def Let_def)
  qed
qed

text \<open>
  Rounding a number whose binade is known: for \<open>2\<^sup>k \<le> \<bar>x\<bar> < 2\<^sup>k\<^sup>+\<^sup>1\<close> the spacing of the
  values of precision \<open>p\<close> is \<open>2\<^sup>k\<^sup>-\<^sup>p\<^sup>+\<^sup>1\<close>.
\<close>

lemma round_to_at:
  assumes "pow2 k \<le> \<bar>x\<bar>" and "\<bar>x\<bar> < pow2 (k + 1)"
  shows "round_to p x = of_int (round_even (x / pow2 (k - int p + 1))) * pow2 (k - int p + 1)"
proof -
  have "x \<noteq> 0" using assms(1) pow2_pos [of k] by auto
  moreover have "\<lfloor>log 2 \<bar>x\<bar>\<rfloor> = k" using assms by (rule floor_log2_eq)
  ultimately show ?thesis by (simp add: round_to_def Let_def)
qed

text \<open>The relative error of rounding to precision \<open>p\<close> is at most \<open>2\<^sup>-\<^sup>p\<close>.\<close>

lemma round_to_error_nonzero:
  assumes "x \<noteq> 0"
  shows "\<bar>round_to p x - x\<bar> \<le> \<bar>x\<bar> / 2 ^ p"
proof -
  let ?k = "\<lfloor>log 2 \<bar>x\<bar>\<rfloor>"
  let ?e = "?k - int p + 1"
  have b: "pow2 ?k \<le> \<bar>x\<bar>" using floor_log2_bounds [of "\<bar>x\<bar>"] assms by simp
  have r: "round_to p x = of_int (round_even (x / pow2 ?e)) * pow2 ?e"
    using assms by (simp add: round_to_def Let_def)
  have "round_to p x - x = (of_int (round_even (x / pow2 ?e)) - x / pow2 ?e) * pow2 ?e"
    using pow2_pos [of ?e] by (simp add: r field_simps)
  then have "\<bar>round_to p x - x\<bar> = \<bar>of_int (round_even (x / pow2 ?e)) - x / pow2 ?e\<bar> * pow2 ?e"
    using pow2_pos [of ?e] by (simp add: abs_mult)
  also have "\<dots> \<le> (1 / 2) * pow2 ?e"
    using round_even_error [of "x / pow2 ?e"] pow2_pos [of ?e] by (intro mult_right_mono) simp_all
  also have "\<dots> = pow2 ?k / 2 ^ p"
  proof -
    have "pow2 ?k = pow2 ?e * pow2 (int p - 1)" by (simp add: pow2_add [symmetric])
    moreover have "pow2 (int p - 1) * 2 = 2 ^ p"
    proof -
      have "pow2 (int p - 1) * pow2 1 = pow2 (int p)" by (simp add: pow2_add [symmetric])
      then show ?thesis by (simp add: pow2_def)
    qed
    ultimately show ?thesis by (simp add: field_simps)
  qed
  also have "\<dots> \<le> \<bar>x\<bar> / 2 ^ p" using b by (simp add: divide_right_mono)
  finally show ?thesis .
qed

lemma round_to_error: "\<bar>round_to p x - x\<bar> \<le> \<bar>x\<bar> / 2 ^ p"
  using round_to_error_nonzero [of x p] by (cases "x = 0") (simp_all add: round_to_def)

text \<open>
  The threshold as computed and the exact one. For radii whose sum \<open>R\<close> lies between 0
  and 8 the computed threshold differs from \<open>R + 0.5\<close> by less than 0.0000005, and the
  computed square from the exact square of the computed threshold by less than
  \<open>81 / 2\<^sup>5\<^sup>3\<close>.
\<close>

lemma threshold_rounding:
  assumes "0 \<le> r1 + r2" and "r1 + r2 \<le> 8"
  shows "\<bar>double_add (float_add r1 r2) 0.5 - (r1 + r2 + 0.5)\<bar> \<le> 1 / 2000000"
proof -
  let ?R = "r1 + r2"
  let ?s = "round_to 24 ?R"
  let ?t = "double_add ?s 0.5"
  have s: "\<bar>?s - ?R\<bar> \<le> ?R / 2 ^ 24" using round_to_error [of 24 ?R] assms(1) by simp
  have "?R / 2 ^ 24 \<le> 8 / 2 ^ 24" using assms(2) by (simp add: divide_right_mono)
  with s have s8: "\<bar>?s - ?R\<bar> \<le> 8 / 2 ^ 24" by linarith
  have s0: "0 \<le> ?s" using s assms(1) by (auto simp: abs_if split: if_splits)
  have s9: "?s + 0.5 \<le> 9" using s8 assms(2) by (auto simp: abs_if split: if_splits)
  have t: "\<bar>?t - (?s + 0.5)\<bar> \<le> \<bar>?s + 0.5\<bar> / 2 ^ 53"
    unfolding double_add_def by (rule round_to_error)
  have "\<bar>?s + 0.5\<bar> / 2 ^ 53 \<le> 9 / 2 ^ 53" using s0 s9 by (simp add: divide_right_mono)
  with t have t9: "\<bar>?t - (?s + 0.5)\<bar> \<le> 9 / 2 ^ 53" by linarith
  have "\<bar>?t - (?R + 0.5)\<bar> \<le> 1 / 2000000"
    using s8 t9 by (auto simp: abs_if split: if_splits)
  then show ?thesis by (simp add: float_add_def)
qed

lemma square_rounding:
  assumes "0 \<le> t" and "t \<le> 9"
  shows "\<bar>sq t - t * t\<bar> \<le> 81 / 2 ^ 53"
proof -
  have "\<bar>sq t - t * t\<bar> \<le> \<bar>t * t\<bar> / 2 ^ 53"
    unfolding sq_def double_mul_def by (rule round_to_error)
  moreover have "t * t \<le> 9 * 9" using assms by (intro mult_mono) simp_all
  then have "\<bar>t * t\<bar> / 2 ^ 53 \<le> 81 / 2 ^ 53" by (simp add: divide_right_mono)
  ultimately show ?thesis by linarith
qed

text \<open>
  Hence the test decides as the exact threshold does for every squared distance outside
  the band between the squares of the exact threshold minus and plus 0.00001.
\<close>

lemma within_threshold_band:
  assumes "1 / 2 \<le> exact_threshold cr p" and "exact_threshold cr p \<le> 17 / 2"
  shows "dist_sq p \<le> (exact_threshold cr p - 1 / 100000)\<^sup>2 \<Longrightarrow> within_threshold cr p"
    and "(exact_threshold cr p + 1 / 100000)\<^sup>2 \<le> dist_sq p \<Longrightarrow> \<not> within_threshold cr p"
proof -
  let ?r1 = "cr (element (cra_atom (np_cra1 p)))"
  let ?r2 = "cr (element (cra_atom (np_cra2 p)))"
  let ?R = "?r1 + ?r2"
  let ?T = "exact_threshold cr p"
  let ?t = "threshold cr p"
  let ?d = "dist_sq p"
  have T: "?T = ?R + 0.5" by (simp add: exact_threshold_def)
  have R0: "0 \<le> ?R" and R8: "?R \<le> 8" using assms by (simp_all add: T)
  have "\<bar>double_add (float_add ?r1 ?r2) 0.5 - (?R + 0.5)\<bar> \<le> 1 / 2000000"
    using R0 R8 by (rule threshold_rounding)
  then have tT: "\<bar>?t - ?T\<bar> \<le> 1 / 2000000" by (simp add: threshold_def T)
  have t0: "0 \<le> ?t" and t9: "?t \<le> 9" using tT assms by (auto simp: abs_if split: if_splits)
  have q: "\<bar>sq ?t - ?t * ?t\<bar> \<le> 81 / 2 ^ 53" using t0 t9 by (rule square_rounding)
  let ?lo = "?T - 1 / 2000000"
  let ?hi = "?T + 1 / 2000000"
  have lo: "?lo * ?lo \<le> ?t * ?t"
    using tT assms(1) by (intro mult_mono) (auto simp: abs_if split: if_splits)
  have hi: "?t * ?t \<le> ?hi * ?hi"
    using tT t0 assms(1) by (intro mult_mono) (auto simp: abs_if split: if_splits)
  {
    assume d: "?d \<le> (?T - 1 / 100000)\<^sup>2"
    have "(?T - 1 / 100000) * (?T - 1 / 100000) \<le> ?lo * ?lo - 81 / 2 ^ 53"
      using assms(1) by (simp add: algebra_simps)
    with d lo q have "?d \<le> sq ?t"
      by (auto simp: power2_eq_square abs_if split: if_splits)
    then show "within_threshold cr p" by (simp add: within_threshold_def)
  }
  {
    assume d: "(?T + 1 / 100000)\<^sup>2 \<le> ?d"
    have "?hi * ?hi + 81 / 2 ^ 53 < (?T + 1 / 100000) * (?T + 1 / 100000)"
      using assms(1) by (simp add: algebra_simps)
    with d hi q have "sq ?t < ?d"
      by (auto simp: power2_eq_square abs_if split: if_splits)
    then show "\<not> within_threshold cr p" by (simp add: within_threshold_def)
  }
qed

subsection \<open>The decimal counter\<close>

lemma to_string_not_Nil: "to_string n \<noteq> []"
  by (subst to_string.simps) simp

lemma digit_char_inj:
  assumes "a < 10" and "b < 10" and "digit_char a = digit_char b"
  shows "a = b"
proof -
  have d: "distinct ''0123456789''" by simp
  have "length ''0123456789'' = 10" by simp
  then show "a = b"
    using nth_eq_iff_index_eq [OF d, of a b] assms unfolding digit_char_def by simp
qed

lemma to_string_inj: "to_string n = to_string m \<Longrightarrow> n = m"
proof (induction n arbitrary: m rule: to_string.induct)
  case (1 n)
  show ?case
  proof (cases "n < 10")
    case True
    then have n: "to_string n = [digit_char n]" by (subst to_string.simps) simp
    have "m < 10"
    proof (rule ccontr)
      assume "\<not> m < 10"
      then have "to_string m = to_string (m div 10) @ [digit_char (m mod 10)]"
        by (subst to_string.simps) simp
      then show False using n "1.prems" to_string_not_Nil [of "m div 10"] by simp
    qed
    then have "to_string m = [digit_char m]" by (subst to_string.simps) simp
    then show ?thesis using n "1.prems" True \<open>m < 10\<close> digit_char_inj by simp
  next
    case False
    then have n: "to_string n = to_string (n div 10) @ [digit_char (n mod 10)]"
      by (subst to_string.simps) simp
    have m10: "\<not> m < 10"
    proof
      assume "m < 10"
      then have "to_string m = [digit_char m]" by (subst to_string.simps) simp
      then show False using n "1.prems" to_string_not_Nil [of "n div 10"] by simp
    qed
    then have m: "to_string m = to_string (m div 10) @ [digit_char (m mod 10)]"
      by (subst to_string.simps) simp
    have eqs: "to_string (n div 10) = to_string (m div 10)"
      "digit_char (n mod 10) = digit_char (m mod 10)"
      using n m "1.prems" by simp_all
    have "n div 10 = m div 10" using "1.IH" [OF False eqs(1)] .
    moreover have "n mod 10 = m mod 10" using digit_char_inj [OF _ _ eqs(2)] by simp
    ultimately show ?thesis by (metis div_mult_mod_eq)
  qed
qed

lemma to_string_1: "to_string (Suc 0) = ''1''"
  by (subst to_string.simps) (simp add: digit_char_def)

lemma to_string_2: "to_string (Suc (Suc 0)) = ''2''"
  by (subst to_string.simps) (simp add: digit_char_def)

subsection \<open>Finding a connection\<close>

lemma iequal_refl: "iequal a a"
  by (simp add: iequal_def)

lemma atom_matches_own_address: "atom_matches c (address_of c)"
  by (simp add: atom_matches_def address_of_def make_address_def iequal_refl)

lemma partners_new_connection:
  "partner1 (new_connection k p) = address_of (np_cra1 p)"
  "partner2 (new_connection k p) = address_of (np_cra2 p)"
  by (simp_all add: new_connection_def address_of_def)

lemma find_connection_append:
  "find_connection_by_cra cs c1 c2 \<noteq> None \<Longrightarrow> find_connection_by_cra (cs @ extra) c1 c2 \<noteq> None"
  by (auto simp: find_connection_by_cra_def find_None_iff)

lemma find_connection_new:
  "find_connection_by_cra (cs @ [new_connection k p]) (np_cra1 p) (np_cra2 p) \<noteq> None"
proof -
  have "atom_matches (np_cra1 p) (partner1 (new_connection k p))"
       "atom_matches (np_cra2 p) (partner2 (new_connection k p))"
    by (simp_all add: partners_new_connection atom_matches_own_address)
  then show ?thesis by (auto simp: find_connection_by_cra_def find_None_iff)
qed

subsection \<open>One call of the visitor\<close>

lemma visit_contact_cases:
  "visit_contact cr astr s p =
    (if settled cr (conns s) p then s
     else \<lparr>counter = Suc (counter s),
           conns = conns s @ [new_connection (Suc (counter s)) p],
           printed = printed s @ [''Added link '' @ astr (np_cra1 p) @ '' - '' @ astr (np_cra2 p)]\<rparr>)"
  by (simp add: visit_contact_def settled_def within_threshold_def threshold_def Let_def not_le)

lemma settled_append: "settled cr cs p \<Longrightarrow> settled cr (cs @ extra) p"
  using find_connection_append by (auto simp: settled_def)

lemma visit_contact_settles: "settled cr (conns (visit_contact cr astr s p)) p"
  using find_connection_new by (simp add: visit_contact_cases) (simp add: settled_def)

lemma visit_contact_grows: "\<exists>extra. conns (visit_contact cr astr s p) = conns s @ extra"
  by (simp add: visit_contact_cases)

subsection \<open>The whole pass\<close>

lemma foldl_visit_grows: "\<exists>extra. conns (foldl (visit_contact cr astr) s ps) = conns s @ extra"
proof (induction ps arbitrary: s)
  case Nil
  then show ?case by simp
next
  case (Cons p ps)
  obtain e1 where e1: "conns (visit_contact cr astr s p) = conns s @ e1"
    using visit_contact_grows by blast
  obtain e2 where "conns (foldl (visit_contact cr astr) (visit_contact cr astr s p) ps) =
      conns (visit_contact cr astr s p) @ e2"
    using Cons.IH by blast
  then show ?case using e1 by simp
qed

lemma foldl_visit_settles:
  "p \<in> set ps \<Longrightarrow> settled cr (conns (foldl (visit_contact cr astr) s ps)) p"
proof (induction ps arbitrary: s)
  case Nil
  then show ?case by simp
next
  case (Cons q ps)
  show ?case
  proof (cases "p \<in> set ps")
    case True
    then show ?thesis using Cons.IH by simp
  next
    case False
    then have "p = q" using Cons.prems by simp
    obtain extra where "conns (foldl (visit_contact cr astr) (visit_contact cr astr s q) ps) =
        conns (visit_contact cr astr s q) @ extra"
      using foldl_visit_grows by blast
    then show ?thesis
      using settled_append [OF visit_contact_settles [of cr astr s q]] \<open>p = q\<close> by simp
  qed
qed

lemma foldl_visit_settled:
  "\<forall>p \<in> set ps. settled cr (conns s) p \<Longrightarrow> foldl (visit_contact cr astr) s ps = s"
  by (induction ps) (simp_all add: visit_contact_cases)

lemma length_numbered_links: "length (numbered_links c acc) = length acc"
  by (induction acc arbitrary: c) simp_all

lemma nth_numbered_links:
  "i < length acc \<Longrightarrow> numbered_links c acc ! i = new_connection (Suc (c + i)) (acc ! i)"
proof (induction acc arbitrary: c i)
  case Nil
  then show ?case by simp
next
  case (Cons q acc)
  then show ?case by (cases i) simp_all
qed

lemma foldl_visit_links:
  "\<exists>acc. set acc \<subseteq> set qs \<and>
     conns (foldl (visit_contact cr astr) s qs) = conns s @ numbered_links (counter s) acc"
proof (induction qs arbitrary: s)
  case Nil
  have "set [] \<subseteq> set ([] :: neighbor_pair list) \<and>
      conns (foldl (visit_contact cr astr) s []) = conns s @ numbered_links (counter s) []"
    by simp
  then show ?case by blast
next
  case (Cons q qs)
  let ?s1 = "visit_contact cr astr s q"
  obtain acc where acc: "set acc \<subseteq> set qs"
    "conns (foldl (visit_contact cr astr) ?s1 qs) = conns ?s1 @ numbered_links (counter ?s1) acc"
    using Cons.IH [of ?s1] by blast
  show ?case
  proof (cases "settled cr (conns s) q")
    case True
    then have "?s1 = s" by (simp add: visit_contact_cases)
    then have "set acc \<subseteq> set (q # qs) \<and>
        conns (foldl (visit_contact cr astr) s (q # qs)) = conns s @ numbered_links (counter s) acc"
      using acc by auto
    then show ?thesis by blast
  next
    case False
    then have c: "counter ?s1 = Suc (counter s)"
      and cs: "conns ?s1 = conns s @ [new_connection (Suc (counter s)) q]"
      by (simp_all add: visit_contact_cases)
    have "set (q # acc) \<subseteq> set (q # qs) \<and>
        conns (foldl (visit_contact cr astr) s (q # qs)) = conns s @ numbered_links (counter s) (q # acc)"
      using acc c cs by auto
    then show ?thesis by blast
  qed
qed

lemma assign_connections_pass:
  "assign_connections cr astr nsearch m st =
     (st\<lparr>connections :=
          conns (foldl (visit_contact cr astr) \<lparr>counter = 0, conns = connections st, printed = []\<rparr>
                   (visited nsearch m))\<rparr>,
      printed (foldl (visit_contact cr astr) \<lparr>counter = 0, conns = connections st, printed = []\<rparr>
                   (visited nsearch m)))"
  by (simp add: assign_connections_def for_each_contact_def visited_def Let_def)

lemma assign_connections_grows:
  "\<exists>extra. connections (fst (assign_connections cr astr nsearch m st)) = connections st @ extra"
  using foldl_visit_grows [of cr astr "\<lparr>counter = 0, conns = connections st, printed = []\<rparr>"]
  by (simp add: assign_connections_pass)

lemma added_connections_contacts:
  "added_connections cr astr nsearch m st =
     drop (length (connections st))
       (conns (foldl (visit_contact cr astr) \<lparr>counter = 0, conns = connections st, printed = []\<rparr>
                 (visited nsearch m)))"
  by (simp add: added_connections_def assign_connections_pass)

lemma added_connections_links:
  "\<exists>acc. set acc \<subseteq> set (visited nsearch m) \<and>
     added_connections cr astr nsearch m st = numbered_links 0 acc"
proof -
  let ?s0 = "\<lparr>counter = 0, conns = connections st, printed = []\<rparr>"
  obtain acc where acc: "set acc \<subseteq> set (visited nsearch m)"
    "conns (foldl (visit_contact cr astr) ?s0 (visited nsearch m)) =
       conns ?s0 @ numbered_links (counter ?s0) acc"
    using foldl_visit_links [of "visited nsearch m" cr astr ?s0] by blast
  have "added_connections cr astr nsearch m st = numbered_links 0 acc"
    using acc(2) by (simp add: added_connections_contacts)
  then show ?thesis using acc(1) by blast
qed

lemma adjacent_residues_address:
  "adjacent_residues a b =
     (addr_chain (address_of a) = addr_chain (address_of b) \<and>
      \<bar>addr_seqnum (address_of a) - addr_seqnum (address_of b)\<bar> = 1)"
  by (simp add: adjacent_residues_def address_of_def make_address_def)

lemma adjacent_residues_sym: "adjacent_residues a b = adjacent_residues b a"
  by (auto simp: adjacent_residues_def)

subsection \<open>The example\<close>

text \<open>The covalent radii of the example, as values of type \<^verbatim>\<open>float\<close>.\<close>

lemma ex_covalent_r_S: "ex_covalent_r ''S'' = 4404019 / 2 ^ 22"
  unfolding ex_covalent_r_def
  by (subst round_to_at [where k = "0"]) (simp_all add: pow2_def round_even_def Let_def)

lemma ex_covalent_r_C: "ex_covalent_r ''C'' = 3187671 / 2 ^ 22"
  unfolding ex_covalent_r_def
  by (subst round_to_at [where k = "-1"]) (simp_all add: pow2_def round_even_def Let_def)

lemma ex_covalent_r_N: "ex_covalent_r ''N'' = 11911823 / 2 ^ 24"
  unfolding ex_covalent_r_def
  by (subst round_to_at [where k = "-1"]) (simp_all add: pow2_def round_even_def Let_def)

lemma ex_covalent_r_F: "ex_covalent_r ''F'' = 9563013 / 2 ^ 24"
  unfolding ex_covalent_r_def
  by (subst round_to_at [where k = "-1"]) (simp_all add: pow2_def round_even_def Let_def)

lemmas ex_radii = ex_covalent_r_S ex_covalent_r_C ex_covalent_r_N ex_covalent_r_F

lemmas ex_atoms = ex_cys1_C_def ex_gly2_N_def ex_cys1_SG_def ex_cys5_SG_def ex_lig1_C1_def
  ex_lig1_F1_def ex_atom_def

lemma ex_contacts:
  "visited ex_neighbor_search ex_link_model = [ex_disulfide, ex_apart, ex_across]"
  by (simp add: visited_def contacts_def ex_neighbor_search_def adjacent_residues_def power2_eq_square
      ex_peptide_def ex_disulfide_def ex_apart_def ex_across_def ex_remote_def
      ex_cys1_C_def ex_gly2_N_def ex_cys1_SG_def ex_cys5_SG_def ex_lig1_C1_def
      ex_chain_A_def ex_chain_L_def ex_cys1_def ex_gly2_def ex_cys5_def ex_lig1_def)

lemma ex_peptide_within: "within_threshold ex_covalent_r ex_peptide"
  by (rule within_threshold_band(1))
     (simp_all add: exact_threshold_def ex_peptide_def ex_atoms ex_radii power2_eq_square)

lemma ex_disulfide_within: "within_threshold ex_covalent_r ex_disulfide"
  by (rule within_threshold_band(1))
     (simp_all add: exact_threshold_def ex_disulfide_def ex_atoms ex_radii power2_eq_square)

lemma ex_apart_beyond: "\<not> within_threshold ex_covalent_r ex_apart"
  by (rule within_threshold_band(2))
     (simp_all add: exact_threshold_def ex_apart_def ex_atoms ex_radii power2_eq_square)

lemma ex_across_within: "within_threshold ex_covalent_r ex_across"
  by (rule within_threshold_band(1))
     (simp_all add: exact_threshold_def ex_across_def ex_atoms ex_radii power2_eq_square)

lemma ex_added:
  "added_connections ex_covalent_r ex_atom_str ex_neighbor_search ex_link_model ex_linked =
     [new_connection 1 ex_disulfide, new_connection 2 ex_across]"
proof -
  let ?s0 = "\<lparr>counter = 0, conns = connections ex_linked, printed = []\<rparr>"
  let ?s1 = "visit_contact ex_covalent_r ex_atom_str ?s0 ex_disulfide"
  let ?s2 = "visit_contact ex_covalent_r ex_atom_str ?s1 ex_apart"
  let ?s3 = "visit_contact ex_covalent_r ex_atom_str ?s2 ex_across"
  have f1: "find_connection_by_cra [ex_old_link] (np_cra1 ex_disulfide) (np_cra2 ex_disulfide) = None"
    by (simp add: find_connection_by_cra_def atom_matches_def iequal_def to_lower_def
        ex_old_link_def address_of_def make_address_def ex_disulfide_def ex_atoms
        ex_cys1_def ex_gly2_def ex_cys5_def ex_lig1_def)
  have s1: "counter ?s1 = 1 \<and> conns ?s1 = [ex_old_link, new_connection 1 ex_disulfide]"
    using f1 ex_disulfide_within by (simp add: visit_contact_cases settled_def ex_linked_def)
  have s2: "?s2 = ?s1"
    using ex_apart_beyond by (simp add: visit_contact_cases settled_def)
  have f3: "find_connection_by_cra [ex_old_link, new_connection 1 ex_disulfide]
              (np_cra1 ex_across) (np_cra2 ex_across) = None"
    by (simp add: find_connection_by_cra_def atom_matches_def iequal_def to_lower_def
        new_connection_def ex_old_link_def address_of_def make_address_def
        ex_disulfide_def ex_across_def ex_atoms
        ex_cys1_def ex_gly2_def ex_cys5_def ex_lig1_def ex_chain_A_def ex_chain_L_def)
  have s3: "conns ?s3 = [ex_old_link, new_connection 1 ex_disulfide, new_connection 2 ex_across]"
    unfolding s2 using f3 s1 ex_across_within
    by (simp add: visit_contact_cases [of _ _ ?s1] settled_def numeral_2_eq_2)
  have "foldl (visit_contact ex_covalent_r ex_atom_str) ?s0 [ex_disulfide, ex_apart, ex_across] = ?s3"
    by simp
  then show ?thesis
    using s3 by (simp add: added_connections_contacts ex_contacts) (simp add: ex_linked_def)
qed

text \<open>
  The recorded distance of the two sulphur atoms: the \<^verbatim>\<open>float\<close> nearest to the square
  root of \<open>4321077 / 2\<^sup>2\<^sup>0\<close> is \<open>8514437 / 2\<^sup>2\<^sup>2\<close> (2.0299999713897705), which is not the
  square root itself. That of the contact across the symmetry image is 2.
\<close>

lemma ex_disulfide_distance: "float_sqrt (dist_sq ex_disulfide) = 8514437 / 2 ^ 22"
proof -
  let ?d = "4321077 / 2 ^ 20 :: real"
  have lo: "2 \<le> sqrt ?d" by (rule real_le_rsqrt) (simp add: power2_eq_square)
  have hi: "sqrt ?d < 4" by (rule real_less_lsqrt) (simp_all add: power2_eq_square)
  have a: "17028873 / 2 ^ 23 < sqrt ?d" by (rule real_less_rsqrt) (simp add: power2_eq_square)
  have b: "sqrt ?d < 17028875 / 2 ^ 23" by (rule real_less_lsqrt) (simp_all add: power2_eq_square)
  have "round_even (sqrt ?d / pow2 (1 - int 24 + 1)) = 8514437"
    using a b by (intro round_even_eqI) (simp_all add: pow2_def field_simps)
  moreover have "pow2 1 \<le> \<bar>sqrt ?d\<bar>" "\<bar>sqrt ?d\<bar> < pow2 (1 + 1)"
    using lo hi by (simp_all add: pow2_def)
  ultimately have "round_to 24 (sqrt ?d) = 8514437 / 2 ^ 22"
    by (subst round_to_at [where k = 1]) (simp_all add: pow2_def)
  then show ?thesis by (simp add: float_sqrt_def ex_disulfide_def)
qed

lemma ex_disulfide_distance_rounded: "float_sqrt (dist_sq ex_disulfide) \<noteq> sqrt (dist_sq ex_disulfide)"
proof
  assume "float_sqrt (dist_sq ex_disulfide) = sqrt (dist_sq ex_disulfide)"
  then have e: "sqrt (4321077 / 2 ^ 20) = 8514437 / 2 ^ 22"
    unfolding ex_disulfide_distance by (simp add: ex_disulfide_def)
  have "(sqrt (4321077 / 2 ^ 20 :: real))\<^sup>2 = 4321077 / 2 ^ 20"
    by (rule real_sqrt_pow2) simp
  then have "(8514437 / 2 ^ 22 :: real)\<^sup>2 = 4321077 / 2 ^ 20" unfolding e .
  then show False by (simp add: power2_eq_square)
qed

lemma ex_across_distance: "float_sqrt (dist_sq ex_across) = 2"
proof -
  have "sqrt 4 = 2" using real_sqrt_abs [of 2] by simp
  then have "float_sqrt 4 = 2"
    unfolding float_sqrt_def
    by (subst round_to_at [where k = "1"]) (simp_all add: pow2_def round_even_def Let_def)
  then show ?thesis by (simp add: ex_across_def)
qed

text \<open>
  The two contacts next to the threshold. For nitrogen and carbon the sum of the radii,
  \<open>24662507 / 2\<^sup>2\<^sup>4\<close>, lies half-way between two values of type \<^verbatim>\<open>float\<close> and is rounded
  up to \<open>6165627 / 2\<^sup>2\<^sup>2\<close>; for sulphur and fluorine the sum \<open>27179089 / 2\<^sup>2\<^sup>4\<close> is rounded
  down to \<open>1698693 / 2\<^sup>2\<^sup>0\<close>. The sum with 0.5 and the square are exact in \<^verbatim>\<open>double\<close>.
\<close>

lemma ex_just_outside_threshold: "threshold ex_covalent_r ex_just_outside = 8262779 / 2 ^ 22"
proof -
  have s: "float_add (11911823 / 2 ^ 24) (3187671 / 2 ^ 22) = 6165627 / 2 ^ 22"
    unfolding float_add_def
    by (subst round_to_at [where k = "0"]) (simp_all add: pow2_def round_even_def Let_def)
  have t: "double_add (6165627 / 2 ^ 22) 0.5 = 8262779 / 2 ^ 22"
    unfolding double_add_def
    by (subst round_to_at [where k = "0"]) (simp_all add: pow2_def round_even_def Let_def)
  show ?thesis
    unfolding threshold_def
    by (simp only: ex_just_outside_def ex_atoms neighbor_pair.select_convs cra.select_convs
        atom.select_convs ex_radii s t)
qed

lemma ex_just_outside_square: "sq (threshold ex_covalent_r ex_just_outside) = 68273516802841 / 2 ^ 44"
  unfolding ex_just_outside_threshold sq_def double_mul_def
  by (subst round_to_at [where k = "1"]) (simp_all add: pow2_def round_even_def Let_def)

lemma ex_just_inside_threshold: "threshold ex_covalent_r ex_just_inside = 2222981 / 2 ^ 20"
proof -
  have s: "float_add (4404019 / 2 ^ 22) (9563013 / 2 ^ 24) = 1698693 / 2 ^ 20"
    unfolding float_add_def
    by (subst round_to_at [where k = "0"]) (simp_all add: pow2_def round_even_def Let_def)
  have t: "double_add (1698693 / 2 ^ 20) 0.5 = 2222981 / 2 ^ 20"
    unfolding double_add_def
    by (subst round_to_at [where k = "1"]) (simp_all add: pow2_def round_even_def Let_def)
  show ?thesis
    unfolding threshold_def
    by (simp only: ex_just_inside_def ex_atoms neighbor_pair.select_convs cra.select_convs
        atom.select_convs ex_radii s t)
qed

lemma ex_just_inside_square: "sq (threshold ex_covalent_r ex_just_inside) = 4941644526361 / 2 ^ 40"
  unfolding ex_just_inside_threshold sq_def double_mul_def
  by (subst round_to_at [where k = "2"]) (simp_all add: pow2_def round_even_def Let_def)

lemma ex_boundary_contacts:
  "visited ex_boundary_search ex_link_model = [ex_just_outside, ex_just_inside]"
  by (simp add: visited_def contacts_def ex_boundary_search_def adjacent_residues_def power2_eq_square
      ex_just_outside_def ex_just_inside_def
      ex_gly2_N_def ex_cys5_SG_def ex_lig1_C1_def ex_lig1_F1_def
      ex_chain_A_def ex_chain_L_def ex_cys1_def ex_gly2_def ex_cys5_def ex_lig1_def)

lemma ex_boundary_added:
  "added_connections ex_covalent_r ex_atom_str ex_boundary_search ex_link_model ex_unlinked =
     [new_connection 1 ex_just_outside]"
proof -
  let ?s0 = "\<lparr>counter = 0, conns = connections ex_unlinked, printed = []\<rparr>"
  let ?s1 = "visit_contact ex_covalent_r ex_atom_str ?s0 ex_just_outside"
  let ?s2 = "visit_contact ex_covalent_r ex_atom_str ?s1 ex_just_inside"
  have w1: "within_threshold ex_covalent_r ex_just_outside"
    unfolding within_threshold_def ex_just_outside_square by (simp add: ex_just_outside_def)
  have w2: "\<not> within_threshold ex_covalent_r ex_just_inside"
    unfolding within_threshold_def ex_just_inside_square by (simp add: ex_just_inside_def)
  have s1: "conns ?s1 = [new_connection 1 ex_just_outside]"
    using w1 by (simp add: visit_contact_cases settled_def ex_unlinked_def find_connection_by_cra_def)
  have s2: "?s2 = ?s1"
    using w2 by (simp add: visit_contact_cases settled_def)
  have "foldl (visit_contact ex_covalent_r ex_atom_str) ?s0 [ex_just_outside, ex_just_inside] = ?s2"
    by simp
  then show ?thesis
    using s1 s2 by (simp add: added_connections_contacts ex_boundary_contacts) (simp add: ex_unlinked_def)
qed

subsection \<open>The claims\<close>

text \<open>
  C3, as amended. For a pair that is not connected yet, the visitor appends a connection
  exactly when the squared distance is at most the square of the threshold, both as the
  program computes them: the sum of the two radii rounded to \<^verbatim>\<open>float\<close>, the sum with
  0.5 and the square rounded to \<^verbatim>\<open>double\<close>. For radii whose sum lies between 0 and 8
  (an exact threshold between 0.5 and 8.5) this agrees with the exact threshold outside
  a narrow band: a pair whose squared distance is at most the square of the exact
  threshold minus 0.00001 is accepted, and a pair whose squared distance is at least the
  square of the exact threshold plus 0.00001, in particular a pair at that distance, is
  rejected. Inside the band the roundings decide.
\<close>

theorem threshold_test:
  assumes "find_connection_by_cra (conns s) (np_cra1 p) (np_cra2 p) = None"
  shows "conns (visit_contact cr astr s p) =
           (if dist_sq p \<le> sq (threshold cr p)
            then conns s @ [new_connection (Suc (counter s)) p] else conns s) \<and>
         (0.5 \<le> exact_threshold cr p \<and> exact_threshold cr p \<le> 8.5 \<and>
          dist_sq p \<le> (exact_threshold cr p - 0.00001)\<^sup>2 \<longrightarrow>
            conns (visit_contact cr astr s p) = conns s @ [new_connection (Suc (counter s)) p]) \<and>
         (0.5 \<le> exact_threshold cr p \<and> exact_threshold cr p \<le> 8.5 \<and>
          (exact_threshold cr p + 0.00001)\<^sup>2 \<le> dist_sq p \<longrightarrow>
            conns (visit_contact cr astr s p) = conns s)"
proof -
  have test: "settled cr (conns s) p = (\<not> within_threshold cr p)"
    using assms by (simp add: settled_def)
  have main: "conns (visit_contact cr astr s p) =
           (if within_threshold cr p
            then conns s @ [new_connection (Suc (counter s)) p] else conns s)"
    by (simp add: visit_contact_cases test)
  have inside: "within_threshold cr p"
    if "0.5 \<le> exact_threshold cr p" "exact_threshold cr p \<le> 8.5"
       "dist_sq p \<le> (exact_threshold cr p - 0.00001)\<^sup>2"
    using within_threshold_band(1) [of cr p] that by simp
  have outside: "\<not> within_threshold cr p"
    if "0.5 \<le> exact_threshold cr p" "exact_threshold cr p \<le> 8.5"
       "(exact_threshold cr p + 0.00001)\<^sup>2 \<le> dist_sq p"
    using within_threshold_band(2) [of cr p] that by simp
  have "conns (visit_contact cr astr s p) =
           (if dist_sq p \<le> sq (threshold cr p)
            then conns s @ [new_connection (Suc (counter s)) p] else conns s)"
    using main by (simp add: within_threshold_def)
  moreover have "0.5 \<le> exact_threshold cr p \<and> exact_threshold cr p \<le> 8.5 \<and>
          dist_sq p \<le> (exact_threshold cr p - 0.00001)\<^sup>2 \<longrightarrow>
            conns (visit_contact cr astr s p) = conns s @ [new_connection (Suc (counter s)) p]"
    using main inside by simp
  moreover have "0.5 \<le> exact_threshold cr p \<and> exact_threshold cr p \<le> 8.5 \<and>
          (exact_threshold cr p + 0.00001)\<^sup>2 \<le> dist_sq p \<longrightarrow>
            conns (visit_contact cr astr s p) = conns s"
    using main outside by simp
  ultimately show ?thesis by (intro conjI)
qed

text \<open>
  In the example, with no connection present, the two sulphur atoms (exact threshold
  about 2.6, squared distance about 4.1209) are linked, and the nitrogen of GLY 2 and the
  carbon of the ligand at the squared distance 9 (exact threshold about 1.97) are not.
\<close>

theorem threshold_test_witness:
  "find_connection_by_cra [] (np_cra1 ex_disulfide) (np_cra2 ex_disulfide) = None \<and>
   0.5 \<le> exact_threshold ex_covalent_r ex_disulfide \<and>
   exact_threshold ex_covalent_r ex_disulfide \<le> 8.5 \<and>
   dist_sq ex_disulfide \<le> (exact_threshold ex_covalent_r ex_disulfide - 0.00001)\<^sup>2 \<and>
   conns (visit_contact ex_covalent_r ex_atom_str \<lparr>counter = 0, conns = [], printed = []\<rparr> ex_disulfide) =
     [new_connection 1 ex_disulfide] \<and>
   find_connection_by_cra [] (np_cra1 ex_apart) (np_cra2 ex_apart) = None \<and>
   0.5 \<le> exact_threshold ex_covalent_r ex_apart \<and>
   exact_threshold ex_covalent_r ex_apart \<le> 8.5 \<and>
   (exact_threshold ex_covalent_r ex_apart + 0.00001)\<^sup>2 \<le> dist_sq ex_apart \<and>
   conns (visit_contact ex_covalent_r ex_atom_str \<lparr>counter = 0, conns = [], printed = []\<rparr> ex_apart) = []"
proof -
  let ?s = "\<lparr>counter = 0, conns = [], printed = []\<rparr>"
  have none: "find_connection_by_cra (conns ?s) (np_cra1 q) (np_cra2 q) = None" for q
    by (simp add: find_connection_by_cra_def)
  have d: "0.5 \<le> exact_threshold ex_covalent_r ex_disulfide \<and>
      exact_threshold ex_covalent_r ex_disulfide \<le> 8.5 \<and>
      dist_sq ex_disulfide \<le> (exact_threshold ex_covalent_r ex_disulfide - 0.00001)\<^sup>2"
    by (simp add: exact_threshold_def ex_disulfide_def ex_atoms ex_radii power2_eq_square)
  have a: "0.5 \<le> exact_threshold ex_covalent_r ex_apart \<and>
      exact_threshold ex_covalent_r ex_apart \<le> 8.5 \<and>
      (exact_threshold ex_covalent_r ex_apart + 0.00001)\<^sup>2 \<le> dist_sq ex_apart"
    by (simp add: exact_threshold_def ex_apart_def ex_atoms ex_radii power2_eq_square)
  have "conns (visit_contact ex_covalent_r ex_atom_str ?s ex_disulfide) =
      conns ?s @ [new_connection (Suc (counter ?s)) ex_disulfide]"
    using threshold_test [OF none, where p = ex_disulfide and cr = ex_covalent_r and astr = ex_atom_str] d
    by blast
  then have "conns (visit_contact ex_covalent_r ex_atom_str ?s ex_disulfide) = [new_connection 1 ex_disulfide]"
    by simp
  moreover have "conns (visit_contact ex_covalent_r ex_atom_str ?s ex_apart) = conns ?s"
    using threshold_test [OF none, where p = ex_apart and cr = ex_covalent_r and astr = ex_atom_str] a
    by blast
  then have "conns (visit_contact ex_covalent_r ex_atom_str ?s ex_apart) = []"
    by simp
  ultimately show ?thesis using d a none [of ex_disulfide] none [of ex_apart] by simp
qed

text \<open>
  C3 as stated fails next to the threshold, in both directions. The nitrogen of GLY 2
  and the carbon of the ligand lie farther apart than the exact threshold (their squared
  distance exceeds its square) and are linked, because the sum of the two radii is
  rounded up; the sulphur of CYS 5 and the fluorine of the ligand lie within the exact
  threshold and are not linked, because the sum of their radii is rounded down. The run
  on the two contacts adds one connection, between the nitrogen and the carbon.
\<close>

theorem threshold_decided_by_rounding:
  "visited ex_boundary_search ex_link_model = [ex_just_outside, ex_just_inside] \<and>
   connections ex_unlinked = [] \<and>
   (exact_threshold ex_covalent_r ex_just_outside)\<^sup>2 < dist_sq ex_just_outside \<and>
   dist_sq ex_just_inside \<le> (exact_threshold ex_covalent_r ex_just_inside)\<^sup>2 \<and>
   added_connections ex_covalent_r ex_atom_str ex_boundary_search ex_link_model ex_unlinked =
     [new_connection 1 ex_just_outside]"
proof -
  have "(exact_threshold ex_covalent_r ex_just_outside)\<^sup>2 < dist_sq ex_just_outside"
    by (simp add: exact_threshold_def ex_just_outside_def ex_atoms ex_radii power2_eq_square)
  moreover have "dist_sq ex_just_inside \<le> (exact_threshold ex_covalent_r ex_just_inside)\<^sup>2"
    by (simp add: exact_threshold_def ex_just_inside_def ex_atoms ex_radii power2_eq_square)
  moreover have "connections ex_unlinked = []" by (simp add: ex_unlinked_def)
  ultimately show ?thesis using ex_boundary_contacts ex_boundary_added by (intro conjI)
qed

text \<open>
  C4. Link detection is idempotent with respect to the existing connections: run a
  second time on the same model, with the connections of the first run among the
  existing ones, it creates no connection (the structure is returned as it is and
  nothing is printed), because every pair that passes the threshold test is then found
  among the connections and skipped.
\<close>

theorem assign_connections_idempotent:
  "assign_connections cr astr nsearch m (fst (assign_connections cr astr nsearch m st)) =
     (fst (assign_connections cr astr nsearch m st), [])"
proof -
  let ?ps = "visited nsearch m"
  let ?s1 = "foldl (visit_contact cr astr) \<lparr>counter = 0, conns = connections st, printed = []\<rparr> ?ps"
  let ?s0' = "\<lparr>counter = 0, conns = conns ?s1, printed = []\<rparr>"
  have first: "fst (assign_connections cr astr nsearch m st) = st\<lparr>connections := conns ?s1\<rparr>"
    by (simp add: assign_connections_pass)
  have "\<forall>p \<in> set ?ps. settled cr (conns ?s0') p"
    using foldl_visit_settles by simp
  then have "foldl (visit_contact cr astr) ?s0' ?ps = ?s0'"
    by (rule foldl_visit_settled)
  then show ?thesis
    unfolding first by (simp add: assign_connections_pass)
qed

text \<open>
  In the example the first run adds two connections to the one that exists, and the
  second run changes nothing.
\<close>

theorem assign_connections_idempotent_witness:
  "length (connections ex_linked) = 1 \<and>
   length (connections (fst (assign_connections ex_covalent_r ex_atom_str ex_neighbor_search
      ex_link_model ex_linked))) = 3 \<and>
   assign_connections ex_covalent_r ex_atom_str ex_neighbor_search ex_link_model
     (fst (assign_connections ex_covalent_r ex_atom_str ex_neighbor_search ex_link_model ex_linked)) =
   (fst (assign_connections ex_covalent_r ex_atom_str ex_neighbor_search ex_link_model ex_linked), [])"
proof -
  let ?st1 = "fst (assign_connections ex_covalent_r ex_atom_str ex_neighbor_search ex_link_model ex_linked)"
  have old: "length (connections ex_linked) = 1" by (simp add: ex_linked_def)
  obtain extra where grows: "connections ?st1 = connections ex_linked @ extra"
    using assign_connections_grows by blast
  then have "extra = added_connections ex_covalent_r ex_atom_str ex_neighbor_search ex_link_model ex_linked"
    by (simp add: added_connections_def)
  then have "length (connections ?st1) = 3" using grows old by (simp add: ex_added)
  then show ?thesis
    using old assign_connections_idempotent [of ex_covalent_r ex_atom_str ex_neighbor_search
        ex_link_model ex_linked]
    by simp
qed

text \<open>
  C5. For every pair of atoms that belong to sequentially adjacent residues of the same
  chain, link detection creates no connection between the two atoms, whatever their
  distance: no connection added by \<^verbatim>\<open>assign_connections\<close> has the addresses of the two
  atoms as its partners, in either order.
\<close>

theorem adjacent_residues_never_linked:
  assumes "adjacent_residues c1 c2"
  shows "\<not> (\<exists>c \<in> set (added_connections cr astr nsearch m st).
            (partner1 c = address_of c1 \<and> partner2 c = address_of c2) \<or>
            (partner1 c = address_of c2 \<and> partner2 c = address_of c1))"
proof
  assume "\<exists>c \<in> set (added_connections cr astr nsearch m st).
            (partner1 c = address_of c1 \<and> partner2 c = address_of c2) \<or>
            (partner1 c = address_of c2 \<and> partner2 c = address_of c1)"
  then obtain c where c: "c \<in> set (added_connections cr astr nsearch m st)"
    and pc: "(partner1 c = address_of c1 \<and> partner2 c = address_of c2) \<or>
             (partner1 c = address_of c2 \<and> partner2 c = address_of c1)" by blast
  obtain acc where acc: "set acc \<subseteq> set (visited nsearch m)"
    and added: "added_connections cr astr nsearch m st = numbered_links 0 acc"
    using added_connections_links by blast
  obtain i where i: "i < length acc" and ci: "c = numbered_links 0 acc ! i"
    using c added by (metis in_set_conv_nth length_numbered_links)
  let ?p = "acc ! i"
  have "?p \<in> set (visited nsearch m)" using acc i by auto
  then have nadj: "\<not> adjacent_residues (np_cra1 ?p) (np_cra2 ?p)"
    by (simp add: visited_def contacts_def)
  have p1: "partner1 c = address_of (np_cra1 ?p)" and p2: "partner2 c = address_of (np_cra2 ?p)"
    using ci i by (simp_all add: nth_numbered_links partners_new_connection)
  have "adjacent_residues (np_cra1 ?p) (np_cra2 ?p)"
    using pc p1 p2 assms adjacent_residues_sym [of c1 c2]
    by (auto simp: adjacent_residues_address)
  then show False using nadj by simp
qed

text \<open>
  In the example the carbonyl carbon of CYS 1 and the nitrogen of GLY 2 are among the
  neighbour pairs and pass the threshold test (1.75 is below the square of the threshold,
  about 1.97), and no connection between them is added.
\<close>

theorem adjacent_residues_never_linked_witness:
  "adjacent_residues ex_cys1_C ex_gly2_N \<and>
   ex_peptide \<in> set (ex_neighbor_search ex_link_model 5) \<and>
   np_cra1 ex_peptide = ex_cys1_C \<and> np_cra2 ex_peptide = ex_gly2_N \<and>
   within_threshold ex_covalent_r ex_peptide \<and>
   \<not> (\<exists>c \<in> set (added_connections ex_covalent_r ex_atom_str ex_neighbor_search ex_link_model ex_linked).
          (partner1 c = address_of ex_cys1_C \<and> partner2 c = address_of ex_gly2_N) \<or>
          (partner1 c = address_of ex_gly2_N \<and> partner2 c = address_of ex_cys1_C))"
proof -
  have adj: "adjacent_residues ex_cys1_C ex_gly2_N"
    by (simp add: adjacent_residues_def ex_cys1_C_def ex_gly2_N_def ex_cys1_def ex_gly2_def)
  have "within_threshold ex_covalent_r ex_peptide"
    by (rule ex_peptide_within)
  moreover have "ex_peptide \<in> set (ex_neighbor_search ex_link_model 5)"
    by (simp add: ex_neighbor_search_def)
  moreover have "np_cra1 ex_peptide = ex_cys1_C \<and> np_cra2 ex_peptide = ex_gly2_N"
    by (simp add: ex_peptide_def)
  ultimately show ?thesis
    using adj adjacent_residues_never_linked [OF adj, of ex_covalent_r ex_atom_str ex_neighbor_search
        ex_link_model ex_linked]
    by simp
qed

text \<open>
  C6, as amended. The connections that \<^verbatim>\<open>assign_connections\<close> adds are, in order: the
  \<open>k\<close>-th (counting from 1) has the covalent type and the name ``added'' followed by
  \<open>k\<close> in decimal; it comes from a neighbour pair, has the addresses of the pair's atoms
  as partners, is flagged ``same'' exactly when the pair's image index is 0 and
  ``different'' otherwise, and records the square root of the pair's squared distance
  rounded to the nearest value of type \<^verbatim>\<open>float\<close>. The names of the added connections are
  distinct from each other. (They are not compared with the names of the connections
  that existed before.)
\<close>

theorem added_connection_contents:
  "(\<forall>i < length (added_connections cr astr nsearch m st).
      conn_type (added_connections cr astr nsearch m st ! i) = Covale \<and>
      conn_name (added_connections cr astr nsearch m st ! i) = ''added'' @ to_string (Suc i) \<and>
      (\<exists>p \<in> set (nsearch m 5).
         partner1 (added_connections cr astr nsearch m st ! i) = address_of (np_cra1 p) \<and>
         partner2 (added_connections cr astr nsearch m st ! i) = address_of (np_cra2 p) \<and>
         conn_asu (added_connections cr astr nsearch m st ! i) =
           (if image_idx p = 0 then Same else Different) \<and>
         reported_distance (added_connections cr astr nsearch m st ! i) = float_sqrt (dist_sq p))) \<and>
   distinct (map conn_name (added_connections cr astr nsearch m st))"
proof -
  obtain acc where acc: "set acc \<subseteq> set (visited nsearch m)"
    and added: "added_connections cr astr nsearch m st = numbered_links 0 acc"
    using added_connections_links by blast
  have sub: "set acc \<subseteq> set (nsearch m 5)" using acc by (auto simp: visited_def contacts_def)
  have each: "conn_type (numbered_links 0 acc ! i) = Covale \<and>
      conn_name (numbered_links 0 acc ! i) = ''added'' @ to_string (Suc i) \<and>
      (\<exists>p \<in> set (nsearch m 5).
         partner1 (numbered_links 0 acc ! i) = address_of (np_cra1 p) \<and>
         partner2 (numbered_links 0 acc ! i) = address_of (np_cra2 p) \<and>
         conn_asu (numbered_links 0 acc ! i) = (if image_idx p = 0 then Same else Different) \<and>
         reported_distance (numbered_links 0 acc ! i) = float_sqrt (dist_sq p))"
    if i: "i < length acc" for i
  proof -
    have eq: "numbered_links 0 acc ! i = new_connection (Suc i) (acc ! i)"
      using i by (simp add: nth_numbered_links)
    have mem: "acc ! i \<in> set (nsearch m 5)" using sub i by auto
    have "partner1 (new_connection (Suc i) (acc ! i)) = address_of (np_cra1 (acc ! i)) \<and>
         partner2 (new_connection (Suc i) (acc ! i)) = address_of (np_cra2 (acc ! i)) \<and>
         conn_asu (new_connection (Suc i) (acc ! i)) =
           (if image_idx (acc ! i) = 0 then Same else Different) \<and>
         reported_distance (new_connection (Suc i) (acc ! i)) = float_sqrt (dist_sq (acc ! i))"
      by (simp add: new_connection_def address_of_def)
    then have "\<exists>p \<in> set (nsearch m 5).
         partner1 (new_connection (Suc i) (acc ! i)) = address_of (np_cra1 p) \<and>
         partner2 (new_connection (Suc i) (acc ! i)) = address_of (np_cra2 p) \<and>
         conn_asu (new_connection (Suc i) (acc ! i)) = (if image_idx p = 0 then Same else Different) \<and>
         reported_distance (new_connection (Suc i) (acc ! i)) = float_sqrt (dist_sq p)"
      using mem by blast
    then show ?thesis unfolding eq by (simp add: new_connection_def)
  qed
  have "conn_name (numbered_links 0 acc ! i) \<noteq> conn_name (numbered_links 0 acc ! j)"
    if "i < length acc" "j < length acc" "i \<noteq> j" for i j
    using that to_string_inj [of "Suc i" "Suc j"]
    by (auto simp: nth_numbered_links new_connection_def)
  then have "distinct (map conn_name (numbered_links 0 acc))"
    by (simp add: distinct_conv_nth length_numbered_links)
  then show ?thesis using each by (simp add: added length_numbered_links)
qed

text \<open>
  In the example two connections are added; the second is named ``added2'', is covalent,
  lies across a symmetry image (image index 3) and records the distance 2, the square
  root of 4. The first records \<open>8514437 / 2\<^sup>2\<^sup>2\<close>, the \<^verbatim>\<open>float\<close> nearest to the square root
  of its squared distance.
\<close>

theorem added_connection_contents_witness:
  "length (added_connections ex_covalent_r ex_atom_str ex_neighbor_search ex_link_model ex_linked) = 2 \<and>
   conn_name (added_connections ex_covalent_r ex_atom_str ex_neighbor_search ex_link_model ex_linked ! 1)
     = ''added2'' \<and>
   conn_type (added_connections ex_covalent_r ex_atom_str ex_neighbor_search ex_link_model ex_linked ! 1)
     = Covale \<and>
   conn_asu (added_connections ex_covalent_r ex_atom_str ex_neighbor_search ex_link_model ex_linked ! 1)
     = Different \<and>
   reported_distance (added_connections ex_covalent_r ex_atom_str ex_neighbor_search ex_link_model ex_linked ! 1)
     = 2 \<and>
   reported_distance (added_connections ex_covalent_r ex_atom_str ex_neighbor_search ex_link_model ex_linked ! 0)
     = 8514437 / 2 ^ 22 \<and>
   distinct (map conn_name
     (added_connections ex_covalent_r ex_atom_str ex_neighbor_search ex_link_model ex_linked))"
proof -
  let ?added = "added_connections ex_covalent_r ex_atom_str ex_neighbor_search ex_link_model ex_linked"
  note th = added_connection_contents [of ex_covalent_r ex_atom_str ex_neighbor_search ex_link_model ex_linked]
  have len: "length ?added = 2" by (simp add: ex_added)
  have "conn_type (?added ! 1) = Covale \<and> conn_name (?added ! 1) = ''added'' @ to_string (Suc 1)"
    using th len by simp
  moreover have "conn_asu (?added ! 1) = Different \<and> reported_distance (?added ! 1) = 2"
    by (simp add: ex_added new_connection_def ex_across_distance) (simp add: ex_across_def)
  moreover have "reported_distance (?added ! 0) = 8514437 / 2 ^ 22"
    by (simp add: ex_added new_connection_def ex_disulfide_distance)
  moreover have "distinct (map conn_name ?added)" using th by simp
  ultimately show ?thesis using len by (simp add: to_string_2)
qed

text \<open>
  C6 as stated fails in its last part: the generated name need not differ from the names
  of the connections that exist already. In the example the structure holds a
  connection named ``added1'' (between GLY 2 and the ligand); link detection adds the
  disulfide as its first connection and names it ``added1'' too. The distance recorded
  for it is the rounded square root, which differs from the square root of the squared
  distance.
\<close>

theorem added_name_repeats_existing_name:
  "length (added_connections ex_covalent_r ex_atom_str ex_neighbor_search ex_link_model ex_linked) = 2 \<and>
   conn_name (added_connections ex_covalent_r ex_atom_str ex_neighbor_search ex_link_model ex_linked ! 0)
     \<in> set (map conn_name (connections ex_linked)) \<and>
   reported_distance (added_connections ex_covalent_r ex_atom_str ex_neighbor_search ex_link_model ex_linked ! 0)
     \<noteq> sqrt (dist_sq ex_disulfide)"
proof -
  have "reported_distance (new_connection 1 ex_disulfide) \<noteq> sqrt (dist_sq ex_disulfide)"
    using ex_disulfide_distance_rounded by (simp add: new_connection_def)
  then show ?thesis
    by (simp add: ex_added) (simp add: new_connection_def to_string_1 ex_linked_def ex_old_link_def)
qed

section \<open>Properties of monomer resolution and synthesis\<close>

subsection \<open>The library only grows\<close>

lemma map_le_SomeD: "m \<subseteq>\<^sub>m m' \<Longrightarrow> m k = Some v \<Longrightarrow> m' k = Some v"
  by (metis domI map_le_def)

lemma map_le_NoneD: "m \<subseteq>\<^sub>m m' \<Longrightarrow> m' k = None \<Longrightarrow> m k = None"
  by (metis domIff map_le_def)

lemma emplace_le: "m \<subseteq>\<^sub>m emplace m k v"
  by (auto simp: emplace_def map_le_def)

lemma read_monomer_doc_le: "m \<subseteq>\<^sub>m read_monomer_doc m doc"
  unfolding read_monomer_doc_def
proof (induction doc arbitrary: m)
  case Nil
  then show ?case by simp
next
  case (Cons e doc)
  obtain name cc where e: "e = (name, cc)" by (cases e)
  have "m \<subseteq>\<^sub>m emplace m name cc" by (rule emplace_le)
  also have "\<dots> \<subseteq>\<^sub>m foldl (\<lambda>m' (name, cc). emplace m' name cc) (emplace m name cc) doc"
    by (rule Cons.IH)
  finally show ?case by (simp add: e)
qed

lemma read_user_file_le: "m \<subseteq>\<^sub>m read_user_file sv st_doc m path"
  by (simp add: read_user_file_def read_monomer_cif_def read_monomer_doc_le)

lemma read_user_files_le: "m \<subseteq>\<^sub>m read_user_files sv st_doc m paths"
  unfolding read_user_files_def
proof (induction paths arbitrary: m)
  case Nil
  then show ?case by simp
next
  case (Cons p paths)
  have "m \<subseteq>\<^sub>m read_user_file sv st_doc m p" by (rule read_user_file_le)
  also have "\<dots> \<subseteq>\<^sub>m foldl (read_user_file sv st_doc) (read_user_file sv st_doc m p) paths"
    by (rule Cons.IH)
  finally show ?case by simp
qed

lemma read_monomer_lib_le: "m \<subseteq>\<^sub>m fst (read_monomer_lib m dir names source)"
proof (induction names arbitrary: m)
  case Nil
  then show ?case by simp
next
  case (Cons n names)
  show ?case
  proof (cases "source dir n")
    case (Inl e)
    then show ?thesis using Cons.IH [of m] by (simp add: split_beta)
  next
    case (Inr cc)
    have "m \<subseteq>\<^sub>m emplace m n cc" by (rule emplace_le)
    also have "\<dots> \<subseteq>\<^sub>m fst (read_monomer_lib (emplace m n cc) dir names source)"
      by (rule Cons.IH)
    finally show ?thesis using Inr by (simp add: split_beta)
  qed
qed

lemma read_monomer_lib_looked: "snd (snd (read_monomer_lib m dir names source)) = names"
  by (induction names arbitrary: m) (auto simp: split_beta split: sum.splits)

lemma synthesize_one_le: "m \<subseteq>\<^sub>m synthesize_one sv model0 m name"
  by (auto simp: synthesize_one_def emplace_le split: option.splits)

lemma synthesize_missing_le: "m \<subseteq>\<^sub>m synthesize_missing sv model0 m needed"
  unfolding synthesize_missing_def
proof (induction needed arbitrary: m)
  case Nil
  then show ?case by simp
next
  case (Cons n needed)
  have "m \<subseteq>\<^sub>m synthesize_one sv model0 m n" by (rule synthesize_one_le)
  also have "\<dots> \<subseteq>\<^sub>m foldl (synthesize_one sv model0) (synthesize_one sv model0 m n) needed"
    by (rule Cons.IH)
  finally show ?case by simp
qed

lemma synthesize_missing_keeps:
  "monlib n = Some d \<Longrightarrow> synthesize_missing sv model0 monlib needed n = Some d"
  by (rule map_le_SomeD [OF synthesize_missing_le [of monlib sv model0 needed]])

subsection \<open>What the libraries contribute\<close>

lemma read_monomer_doc_map_of: "read_monomer_doc m doc = map_of doc ++ m"
  unfolding read_monomer_doc_def
proof (induction doc arbitrary: m)
  case Nil
  then show ?case by simp
next
  case (Cons e doc)
  obtain name cc where e: "e = (name, cc)" by (cases e)
  have "map_of doc ++ emplace m name cc = (map_of doc)(name \<mapsto> cc) ++ m"
    by (rule ext) (auto simp: emplace_def map_add_def split: option.splits)
  then show ?case unfolding e using Cons.IH [of "emplace m name cc"] by (simp add: fun_upd_def)
qed

lemma read_user_files_map_of:
  "read_user_files sv st_doc m paths = map_of (concat (map (user_document sv st_doc) paths)) ++ m"
  unfolding read_user_files_def
proof (induction paths arbitrary: m)
  case Nil
  then show ?case by simp
next
  case (Cons p paths)
  have "read_user_file sv st_doc m p = map_of (user_document sv st_doc p) ++ m"
    by (simp add: read_user_file_def read_monomer_cif_def user_document_def read_monomer_doc_map_of)
  then show ?case using Cons.IH [of "read_user_file sv st_doc m p"]
    by (simp add: map_add_assoc [symmetric] map_of_append [symmetric] del: map_of_append) 
qed

lemma overrides_loaded:
  "read_user_files sv st_doc Map.empty (opt_lib opts) = override_definitions sv st_doc opts"
  by (simp add: read_user_files_map_of override_definitions_def)

lemma resolve_looked_up:
  "res_looked_up (resolve_monomers sv opts dir model0 st_doc) =
   filter (\<lambda>s. override_definitions sv st_doc opts s = None) (get_all_residue_names model0)"
proof -
  let ?m1 = "read_user_files sv st_doc Map.empty (opt_lib opts)"
  let ?needed = "vector_remove_if (get_all_residue_names model0) (\<lambda>s. ?m1 s \<noteq> None)"
  obtain m2 err looked where r: "read_monomer_lib ?m1 dir ?needed (monomer_source sv) = (m2, err, looked)"
    by (cases "read_monomer_lib ?m1 dir ?needed (monomer_source sv)") auto
  have "looked = ?needed"
    using read_monomer_lib_looked [of ?m1 dir ?needed "monomer_source sv"] r by simp
  then show ?thesis
    using r by (simp add: resolve_monomers_def Let_def overrides_loaded vector_remove_if_def)
qed

lemma resolve_keeps_overrides:
  "override_definitions sv st_doc opts \<subseteq>\<^sub>m res_monlib (resolve_monomers sv opts dir model0 st_doc)"
proof -
  let ?m1 = "read_user_files sv st_doc Map.empty (opt_lib opts)"
  let ?needed = "vector_remove_if (get_all_residue_names model0) (\<lambda>s. ?m1 s \<noteq> None)"
  obtain m2 err looked where r: "read_monomer_lib ?m1 dir ?needed (monomer_source sv) = (m2, err, looked)"
    by (cases "read_monomer_lib ?m1 dir ?needed (monomer_source sv)") auto
  have "?m1 \<subseteq>\<^sub>m m2"
    using read_monomer_lib_le [of ?m1 dir ?needed "monomer_source sv"] r by simp
  also have "m2 \<subseteq>\<^sub>m read_user_files sv st_doc m2 (opt_low opts)"
    by (rule read_user_files_le)
  finally show ?thesis
    using r by (simp add: resolve_monomers_def Let_def overrides_loaded)
qed

lemma resolve_needed:
  "res_needed (resolve_monomers sv opts dir model0 st_doc) =
   unmet_names (res_monlib (resolve_monomers sv opts dir model0 st_doc)) model0"
proof -
  let ?r = "resolve_monomers sv opts dir model0 st_doc"
  let ?m1 = "read_user_files sv st_doc Map.empty (opt_lib opts)"
  let ?needed = "vector_remove_if (get_all_residue_names model0) (\<lambda>s. ?m1 s \<noteq> None)"
  obtain m2 err looked where r: "read_monomer_lib ?m1 dir ?needed (monomer_source sv) = (m2, err, looked)"
    by (cases "read_monomer_lib ?m1 dir ?needed (monomer_source sv)") auto
  have le: "?m1 \<subseteq>\<^sub>m res_monlib ?r"
    using resolve_keeps_overrides [of sv st_doc opts dir model0] by (simp add: overrides_loaded)
  have "res_needed ?r = vector_remove_if ?needed (\<lambda>s. res_monlib ?r s \<noteq> None)"
    using r by (simp add: resolve_monomers_def Let_def)
  also have "\<dots> = filter (\<lambda>s. res_monlib ?r s = None \<and> ?m1 s = None) (get_all_residue_names model0)"
    by (simp add: vector_remove_if_def conj_commute)
  also have "\<dots> = filter (\<lambda>s. res_monlib ?r s = None) (get_all_residue_names model0)"
    using map_le_NoneD [OF le] by (intro filter_cong) auto
  finally show ?thesis by (simp add: unmet_names_def)
qed

subsection \<open>The rest of the run\<close>

lemma GEMMI_MAIN_prepare:
  "monomer_dir_of opts = Some dir \<Longrightarrow> dir \<noteq> [] \<Longrightarrow> models st = model0 # others \<Longrightarrow>
   GEMMI_MAIN sv opts st st_doc = prepare_monomers sv opts dir model0 st_doc"
  by (simp add: GEMMI_MAIN_def)

lemma handle_needed_keeps:
  "run_progress (handle_needed sv opts model0 r) = Prepared m \<Longrightarrow> res_monlib r \<subseteq>\<^sub>m m"
  by (auto simp: handle_needed_def Let_def synthesize_missing_le split: if_splits)

lemma handle_needed_looked_up:
  "run_looked_up (handle_needed sv opts model0 r) = res_looked_up r"
  by (simp add: handle_needed_def Let_def)

subsection \<open>The synthesis loop\<close>

lemma synthesize_one_no_template:
  "find_most_complete_residue name model0 = None \<Longrightarrow> synthesize_one sv model0 m name = m"
  by (simp add: synthesize_one_def)

lemma synthesize_one_changed:
  assumes "synthesize_one sv model0 m name n \<noteq> m n"
  shows "n = name \<and> m n = None \<and>
    (\<exists>res. find_most_complete_residue n model0 = Some res \<and>
       synthesize_one sv model0 m name n = Some (make_chemcomp_with_restraints sv (pointee res)))"
  using assms by (auto simp: synthesize_one_def emplace_def split: option.splits if_splits)

lemma synthesize_missing_changed:
  assumes "synthesize_missing sv model0 m needed n \<noteq> m n"
  shows "n \<in> set needed \<and> m n = None \<and>
    (\<exists>res. find_most_complete_residue n model0 = Some res \<and>
       synthesize_missing sv model0 m needed n = Some (make_chemcomp_with_restraints sv (pointee res)))"
  using assms
proof (induction needed arbitrary: m)
  case Nil
  then show ?case by (simp add: synthesize_missing_def)
next
  case (Cons a needed)
  let ?m1 = "synthesize_one sv model0 m a"
  have unfold: "synthesize_missing sv model0 m (a # needed) = synthesize_missing sv model0 ?m1 needed"
    by (simp add: synthesize_missing_def)
  show ?case
  proof (cases "?m1 n = m n")
    case True
    then have "synthesize_missing sv model0 ?m1 needed n \<noteq> ?m1 n"
      using Cons.prems unfold by simp
    from Cons.IH [OF this] show ?thesis using True unfold by simp
  next
    case False
    from synthesize_one_changed [OF False] obtain res where
      n: "n = a" "m n = None" and res: "find_most_complete_residue n model0 = Some res"
      and v: "?m1 n = Some (make_chemcomp_with_restraints sv (pointee res))" by blast
    have "synthesize_missing sv model0 ?m1 needed n = Some (make_chemcomp_with_restraints sv (pointee res))"
      by (rule map_le_SomeD [OF synthesize_missing_le [of ?m1 sv model0 needed] v])
    then show ?thesis using n res unfold by simp
  qed
qed

lemma synthesize_missing_removeAll:
  assumes "find_most_complete_residue name model0 = None"
  shows "synthesize_missing sv model0 m needed = synthesize_missing sv model0 m (removeAll name needed)"
  unfolding synthesize_missing_def
  by (induction needed arbitrary: m) (auto simp: synthesize_one_no_template [OF assms])

text \<open>
  The names the program passes to the synthesis loop are residue names of the model, so
  each of them has a template.
\<close>

lemma named_not_Nil:
  "name \<in> set (get_all_residue_names m) \<Longrightarrow> named name m \<noteq> []"
  by (auto simp: get_all_residue_names_def named_def filter_empty_conv)

lemma residue_names_have_template:
  assumes "name \<in> set (get_all_residue_names m)"
  shows "find_most_complete_residue name m \<noteq> None"
proof -
  let ?ys = "named name m"
  have ne: "?ys \<noteq> []" using assms by (rule named_not_Nil)
  have "\<forall>p \<in> set ?ys. res_name (pointee p) = name" by (simp add: named_def)
  then have eq: "find_most_complete_residue name m =
      find (\<lambda>p. natoms p = Max (set (map natoms ?ys))) ?ys"
    unfolding find_most_complete_residue_foldl by (rule foldl_consider_None)
  have "Max (set (map natoms ?ys)) \<in> set (map natoms ?ys)"
    using ne by (intro Max_in) simp_all
  then obtain p where "p \<in> set ?ys" "natoms p = Max (set (map natoms ?ys))"
    by (auto simp: image_iff)
  then have "find (\<lambda>p. natoms p = Max (set (map natoms ?ys))) ?ys \<noteq> None"
    unfolding find_None_iff by blast
  then show ?thesis unfolding eq .
qed

subsection \<open>The example\<close>

lemma ex_names: "get_all_residue_names ex_model = [''ALA'', ''LIG'', ''XYZ'']"
  by (simp add: get_all_residue_names_def traversal_def pointee_def ex_model_def ex_residue_def)

lemma ex_overrides: "read_user_files ex_services [] Map.empty [''user.cif''] = [''LIG'' \<mapsto> ''LIG (user.cif)'']"
  by (simp add: read_user_files_def read_user_file_def read_monomer_cif_def read_monomer_doc_def
      emplace_def ex_services_def)

lemma ex_resolve:
  "resolve_monomers ex_services (ex_options b) ''/mon'' ex_model [] =
     \<lparr>res_monlib = [''LIG'' \<mapsto> ''LIG (user.cif)'', ''ALA'' \<mapsto> ''ALA (installed)''],
      res_needed = [''XYZ''],
      res_printed = [''Monomer not in the library: XYZ.''],
      res_looked_up = [''ALA'', ''XYZ'']\<rparr>"
  by (simp add: resolve_monomers_def ex_options_def ex_overrides ex_names vector_remove_if_def Let_def)
     (simp add: ex_services_def read_user_files_def read_user_file_def read_monomer_cif_def
        read_monomer_doc_def emplace_def)

lemma ex_dir: "monomer_dir_of (ex_options b) = Some ''/mon''"
  by (simp add: monomer_dir_of_def ex_options_def)

lemma ex_models: "models ex_structure = ex_model # []"
  by (simp add: ex_structure_def)

lemma ex_template_XYZ:
  "find_most_complete_residue ''XYZ'' ex_model = Some ((2, 0), ex_residue ''XYZ'' 1 4)"
  by (simp add: find_most_complete_residue_def consider_residue_def pointee_def
      ex_model_def ex_residue_def)

lemma ex_main_auto:
  "GEMMI_MAIN ex_services (ex_options True) ex_structure [] =
     \<lparr>run_printed = [''Monomer not in the library: XYZ.'',
                     ''WARNING: definition not found for XYZ.'',
                     ''WARNING: Using ad-hoc restraints for missing monomers.'',
                     ''WARNING: Restraints generated by a dedicated program would be better.''],
      run_looked_up = [''ALA'', ''XYZ''],
      run_progress = Prepared [''LIG'' \<mapsto> ''LIG (user.cif)'', ''ALA'' \<mapsto> ''ALA (installed)'',
                               ''XYZ'' \<mapsto> ''ad-hoc XYZ'']\<rparr>"
  by (simp add: GEMMI_MAIN_def ex_dir ex_models prepare_monomers_def ex_resolve handle_needed_def
      missing_warning_def synthesize_missing_def synthesize_one_def ex_template_XYZ emplace_def
      pointee_def Let_def)
     (simp add: ex_options_def ex_services_def ex_residue_def)

lemma ex_main_strict:
  "GEMMI_MAIN ex_services (ex_options False) ex_structure [] =
     \<lparr>run_printed = [''Monomer not in the library: XYZ.'',
                     ''WARNING: definition not found for XYZ.''],
      run_looked_up = [''ALA'', ''XYZ''],
      run_progress = Return_1 ''ERROR: Missing monomer definitions''\<rparr>"
  by (simp add: GEMMI_MAIN_def ex_dir ex_models prepare_monomers_def ex_resolve handle_needed_def
      missing_warning_def Let_def)
     (simp add: ex_options_def)


subsection \<open>The claims\<close>

text \<open>
  C1. The override libraries (\<^verbatim>\<open>--lib\<close>) are loaded first, and the installed monomer
  library is looked up only for the residue names of the model that the override
  libraries have not defined. Consequently a name defined in an override library is
  never looked up in the installed library, and its override definition is the one in
  the resolved library after all libraries have been read, and in the library with
  which the run goes on.
\<close>

theorem override_priority:
  assumes "monomer_dir_of opts = Some dir" and "dir \<noteq> []" and "models st = model0 # others"
  shows "run_looked_up (GEMMI_MAIN sv opts st st_doc) =
           filter (\<lambda>s. override_definitions sv st_doc opts s = None) (get_all_residue_names model0) \<and>
         (\<forall>n d. override_definitions sv st_doc opts n = Some d \<longrightarrow>
            n \<notin> set (run_looked_up (GEMMI_MAIN sv opts st st_doc)) \<and>
            res_monlib (resolve_monomers sv opts dir model0 st_doc) n = Some d \<and>
            (\<forall>m. run_progress (GEMMI_MAIN sv opts st st_doc) = Prepared m \<longrightarrow> m n = Some d))"
proof -
  let ?r = "resolve_monomers sv opts dir model0 st_doc"
  have main: "GEMMI_MAIN sv opts st st_doc = handle_needed sv opts model0 ?r"
    using assms by (simp add: GEMMI_MAIN_prepare prepare_monomers_def)
  have looked: "run_looked_up (GEMMI_MAIN sv opts st st_doc) =
      filter (\<lambda>s. override_definitions sv st_doc opts s = None) (get_all_residue_names model0)"
    by (simp add: main handle_needed_looked_up resolve_looked_up)
  have "n \<notin> set (run_looked_up (GEMMI_MAIN sv opts st st_doc)) \<and> res_monlib ?r n = Some d \<and>
        (\<forall>m. run_progress (GEMMI_MAIN sv opts st st_doc) = Prepared m \<longrightarrow> m n = Some d)"
    if ov: "override_definitions sv st_doc opts n = Some d" for n d
  proof -
    have a: "n \<notin> set (run_looked_up (GEMMI_MAIN sv opts st st_doc))"
      using ov by (simp add: looked)
    have b: "res_monlib ?r n = Some d"
      using map_le_SomeD [OF resolve_keeps_overrides ov] .
    have c: "m n = Some d" if "run_progress (GEMMI_MAIN sv opts st st_doc) = Prepared m" for m
      using map_le_SomeD [OF handle_needed_keeps b] that by (simp add: main)
    show ?thesis using a b c by blast
  qed
  then show ?thesis using looked by blast
qed

text \<open>
  In the example LIG is defined by \<^verbatim>\<open>user.cif\<close>, by the installed library and by
  \<^verbatim>\<open>low.cif\<close>; only ALA and XYZ are looked up, and the run goes on with the definition of
  \<^verbatim>\<open>user.cif\<close>.
\<close>

theorem override_priority_witness:
  "override_definitions ex_services [] (ex_options True) ''LIG'' = Some ''LIG (user.cif)'' \<and>
   monomer_source ex_services ''/mon'' ''LIG'' = Inr ''LIG (installed)'' \<and>
   ''LIG'' \<in> set (get_all_residue_names ex_model) \<and>
   run_looked_up (GEMMI_MAIN ex_services (ex_options True) ex_structure []) = [''ALA'', ''XYZ''] \<and>
   (\<exists>m. run_progress (GEMMI_MAIN ex_services (ex_options True) ex_structure []) = Prepared m \<and>
        m ''LIG'' = Some ''LIG (user.cif)'')"
proof -
  have ov: "override_definitions ex_services [] (ex_options True) ''LIG'' = Some ''LIG (user.cif)''"
    by (simp add: override_definitions_def user_document_def ex_options_def ex_services_def)
  have src: "monomer_source ex_services ''/mon'' ''LIG'' = Inr ''LIG (installed)''"
    by (simp add: ex_services_def)
  have dir: "''/mon'' \<noteq> []" by simp
  note th = override_priority [where sv = ex_services and st_doc = "[]", OF ex_dir dir ex_models]
  obtain m where m: "run_progress (GEMMI_MAIN ex_services (ex_options True) ex_structure []) = Prepared m"
    by (simp add: ex_main_auto)
  have "m ''LIG'' = Some ''LIG (user.cif)''" using th ov m by blast
  moreover have "run_looked_up (GEMMI_MAIN ex_services (ex_options True) ex_structure []) = [''ALA'', ''XYZ'']"
    by (simp add: ex_main_auto)
  ultimately show ?thesis using ov src m by (simp add: ex_names)
qed



text \<open>
  C8 is about a needed name that has no residue in the model to serve as template. The
  synthesis loop has no branch of its own for such a name: an iteration whose template
  is null leaves the library as it is and prints nothing (\<open>synthesize_one_no_template\<close>).
  In a run of the program the case does not arise. The needed names are residue names
  of the model that no library defines (\<open>resolve_needed\<close>), and every residue name of the
  model has a template; so, with \<^verbatim>\<open>--auto-ligand\<close> on, the run goes on with a library that
  defines every residue name of the model. What the program would do with a needed name
  without template is therefore not observable in any run, and C8 is neither proved nor
  refuted here.
\<close>

lemma needed_names_have_template:
  assumes "name \<in> set (res_needed (resolve_monomers sv opts dir model0 st_doc))"
  shows "find_most_complete_residue name model0 \<noteq> None"
proof -
  have "name \<in> set (get_all_residue_names model0)"
    using assms by (simp add: resolve_needed unmet_names_def)
  then show ?thesis by (rule residue_names_have_template)
qed

lemma synthesize_missing_defines:
  assumes "name \<in> set needed" and "find_most_complete_residue name model0 \<noteq> None"
  shows "synthesize_missing sv model0 m needed name \<noteq> None"
  using assms(1)
proof (induction needed arbitrary: m)
  case Nil
  then show ?case by simp
next
  case (Cons a needed)
  let ?m1 = "synthesize_one sv model0 m a"
  have unfold: "synthesize_missing sv model0 m (a # needed) = synthesize_missing sv model0 ?m1 needed"
    by (simp add: synthesize_missing_def)
  show ?case
  proof (cases "name = a")
    case True
    then have "?m1 name \<noteq> None"
      using assms(2) by (cases "m a") (auto simp: synthesize_one_def emplace_def)
    then obtain v where v: "?m1 name = Some v" by blast
    have "synthesize_missing sv model0 ?m1 needed name = Some v"
      by (rule map_le_SomeD [OF synthesize_missing_le [of ?m1 sv model0 needed] v])
    then show ?thesis unfolding unfold by simp
  next
    case False
    then have "name \<in> set needed" using Cons.prems by simp
    then show ?thesis unfolding unfold by (rule Cons.IH)
  qed
qed

lemma auto_ligand_defines_all_names:
  assumes "monomer_dir_of opts = Some dir" and "dir \<noteq> []" and "models st = model0 # others"
    and "opt_auto_ligand opts"
    and "name \<in> set (get_all_residue_names model0)"
  shows "\<exists>m v. run_progress (GEMMI_MAIN sv opts st st_doc) = Prepared m \<and> m name = Some v"
proof -
  let ?r = "resolve_monomers sv opts dir model0 st_doc"
  let ?m = "synthesize_missing sv model0 (res_monlib ?r) (res_needed ?r)"
  have main: "GEMMI_MAIN sv opts st st_doc = handle_needed sv opts model0 ?r"
    using assms(1-3) by (simp add: GEMMI_MAIN_prepare prepare_monomers_def)
  have run: "run_progress (handle_needed sv opts model0 ?r) = Prepared ?m"
    using assms(4) by (simp add: handle_needed_def Let_def synthesize_missing_def)
  have "?m name \<noteq> None"
  proof (cases "res_monlib ?r name")
    case None
    then have "name \<in> set (res_needed ?r)"
      using assms(5) by (simp add: resolve_needed unmet_names_def)
    then show ?thesis
      using residue_names_have_template [OF assms(5)] by (rule synthesize_missing_defines)
  next
    case (Some v)
    have "?m name = Some v"
      by (rule map_le_SomeD [OF synthesize_missing_le [of "res_monlib ?r" sv model0 "res_needed ?r"] Some])
    then show ?thesis by simp
  qed
  then show ?thesis unfolding main run by auto
qed

text \<open>
  C9. The monomer library and the connection list only grow. Each operation on the
  library (reading user files, looking up the installed library, the synthesis loop)
  returns a library that agrees with the one it was given on every name defined there;
  so the library with which a run goes on agrees with the resolved library, and that
  one with the override definitions. \<^verbatim>\<open>assign_connections\<close> returns the connection list
  it was given with new connections appended, and leaves the models as they are.
\<close>

theorem monotonic_growth:
  "monlib \<subseteq>\<^sub>m read_user_files sv st_doc monlib paths \<and>
   monlib \<subseteq>\<^sub>m fst (read_monomer_lib monlib dir names source) \<and>
   monlib \<subseteq>\<^sub>m synthesize_missing sv model0 monlib needed \<and>
   override_definitions sv st_doc opts \<subseteq>\<^sub>m res_monlib (resolve_monomers sv opts dir model0 st_doc) \<and>
   (\<forall>final. run_progress (prepare_monomers sv opts dir model0 st_doc) = Prepared final \<longrightarrow>
      res_monlib (resolve_monomers sv opts dir model0 st_doc) \<subseteq>\<^sub>m final) \<and>
   (\<exists>new. connections (fst (assign_connections cr astr nsearch m st)) = connections st @ new) \<and>
   models (fst (assign_connections cr astr nsearch m st)) = models st"
proof -
  have "res_monlib (resolve_monomers sv opts dir model0 st_doc) \<subseteq>\<^sub>m final"
    if "run_progress (prepare_monomers sv opts dir model0 st_doc) = Prepared final" for final
    using that unfolding prepare_monomers_def by (rule handle_needed_keeps)
  moreover have "models (fst (assign_connections cr astr nsearch m st)) = models st"
    by (simp add: assign_connections_pass)
  ultimately show ?thesis
    using read_user_files_le [of monlib sv st_doc paths]
      read_monomer_lib_le [of monlib dir names source]
      synthesize_missing_le [of monlib sv model0 needed]
      resolve_keeps_overrides [of sv st_doc opts dir model0]
      assign_connections_grows [of cr astr nsearch m st]
    by simp
qed

text \<open>
  In the example: reading \<^verbatim>\<open>low.cif\<close> into a library that defines LIG leaves that
  definition, the run goes on with a library that extends the resolved one, and the
  existing connection stays the first of the list.
\<close>

theorem monotonic_growth_witness:
  "read_user_files ex_services [] [''LIG'' \<mapsto> ''LIG (user.cif)''] [''low.cif''] ''LIG''
     = Some ''LIG (user.cif)'' \<and>
   (\<exists>final. run_progress (prepare_monomers ex_services (ex_options True) ''/mon'' ex_model [])
        = Prepared final \<and>
      res_monlib (resolve_monomers ex_services (ex_options True) ''/mon'' ex_model []) \<subseteq>\<^sub>m final \<and>
      final ''XYZ'' = Some ''ad-hoc XYZ'') \<and>
   (\<exists>new. connections (fst (assign_connections ex_covalent_r ex_atom_str ex_neighbor_search
        ex_link_model ex_linked)) = ex_old_link # new)"
proof -
  note th = monotonic_growth [of "[''LIG'' \<mapsto> ''LIG (user.cif)'']" ex_services "[]" "[''low.cif'']"
      "''/mon''" "[]" "monomer_source ex_services" ex_model "[]" "ex_options True"
      ex_covalent_r ex_atom_str ex_neighbor_search ex_link_model ex_linked]
  have le: "[''LIG'' \<mapsto> ''LIG (user.cif)''] \<subseteq>\<^sub>m
      read_user_files ex_services [] [''LIG'' \<mapsto> ''LIG (user.cif)''] [''low.cif'']"
    using th by (rule conjunct1)
  have a: "read_user_files ex_services [] [''LIG'' \<mapsto> ''LIG (user.cif)''] [''low.cif''] ''LIG''
     = Some ''LIG (user.cif)''"
    by (rule map_le_SomeD [OF le]) simp
  have main: "prepare_monomers ex_services (ex_options True) ''/mon'' ex_model [] =
      GEMMI_MAIN ex_services (ex_options True) ex_structure []"
    by (rule GEMMI_MAIN_prepare [OF ex_dir _ ex_models, symmetric]) simp
  obtain final where f: "run_progress (prepare_monomers ex_services (ex_options True) ''/mon'' ex_model [])
        = Prepared final" and x: "final ''XYZ'' = Some ''ad-hoc XYZ''"
    unfolding main by (simp add: ex_main_auto)
  have "res_monlib (resolve_monomers ex_services (ex_options True) ''/mon'' ex_model []) \<subseteq>\<^sub>m final"
    using th f by blast
  then have b: "\<exists>final. run_progress (prepare_monomers ex_services (ex_options True) ''/mon'' ex_model [])
        = Prepared final \<and>
      res_monlib (resolve_monomers ex_services (ex_options True) ''/mon'' ex_model []) \<subseteq>\<^sub>m final \<and>
      final ''XYZ'' = Some ''ad-hoc XYZ''"
    using f x by blast
  have c: "\<exists>new. connections (fst (assign_connections ex_covalent_r ex_atom_str ex_neighbor_search
        ex_link_model ex_linked)) = ex_old_link # new"
    using th by (simp add: ex_linked_def)
  show ?thesis using a b c by (intro conjI)
qed

text \<open>
  C10. The synthesis loop inserts a definition only under a name that has none at that
  moment: every definition that the library holds before the loop is there, unchanged,
  after it, and a name whose entry differs after the loop had no entry before, is one of
  the names given to the loop, and now holds the definition derived from the most
  complete residue of that name. The test that precedes \<^verbatim>\<open>emplace\<close> makes each
  insertion a plain addition of a new key: one pass of the loop body is the update of
  the map under an absent name, or nothing.
\<close>

theorem synthesis_fills_only_absent_names:
  "(\<forall>n d. monlib n = Some d \<longrightarrow> synthesize_missing sv model0 monlib needed n = Some d) \<and>
   (\<forall>n. synthesize_missing sv model0 monlib needed n \<noteq> monlib n \<longrightarrow>
      n \<in> set needed \<and> monlib n = None \<and>
      (\<exists>res. find_most_complete_residue n model0 = Some res \<and>
         synthesize_missing sv model0 monlib needed n =
           Some (make_chemcomp_with_restraints sv (pointee res)))) \<and>
   (\<forall>name. synthesize_one sv model0 monlib name =
      (if monlib name = None
       then (case find_most_complete_residue name model0 of
               Some res \<Rightarrow> monlib(name \<mapsto> make_chemcomp_with_restraints sv (pointee res))
             | None \<Rightarrow> monlib)
       else monlib))"
proof (intro conjI allI impI)
  fix n d
  assume "monlib n = Some d"
  then show "synthesize_missing sv model0 monlib needed n = Some d"
    by (rule synthesize_missing_keeps)
next
  fix n
  assume ch: "synthesize_missing sv model0 monlib needed n \<noteq> monlib n"
  show "n \<in> set needed" using synthesize_missing_changed [OF ch] by (rule conjunct1)
  show "monlib n = None" using synthesize_missing_changed [OF ch] by simp
  show "\<exists>res. find_most_complete_residue n model0 = Some res \<and>
         synthesize_missing sv model0 monlib needed n =
           Some (make_chemcomp_with_restraints sv (pointee res))"
    using synthesize_missing_changed [OF ch] by simp
next
  fix name
  show "synthesize_one sv model0 monlib name =
      (if monlib name = None
       then (case find_most_complete_residue name model0 of
               Some res \<Rightarrow> monlib(name \<mapsto> make_chemcomp_with_restraints sv (pointee res))
             | None \<Rightarrow> monlib)
       else monlib)"
    by (simp add: synthesize_one_def emplace_def split: option.splits)
qed

text \<open>
  In the example the loop is given LIG, which the library defines, and XYZ, which it
  does not: the definition of LIG stays, XYZ gets an ad-hoc one.
\<close>

theorem synthesis_fills_only_absent_names_witness:
  "synthesize_missing ex_services ex_model [''LIG'' \<mapsto> ''LIG (user.cif)''] [''LIG'', ''XYZ''] ''LIG''
     = Some ''LIG (user.cif)'' \<and>
   synthesize_missing ex_services ex_model [''LIG'' \<mapsto> ''LIG (user.cif)''] [''LIG'', ''XYZ''] ''XYZ''
     = Some ''ad-hoc XYZ''"
proof -
  let ?m = "[''LIG'' \<mapsto> ''LIG (user.cif)'']"
  note th = synthesis_fills_only_absent_names [of ?m ex_services ex_model "[''LIG'', ''XYZ'']"]
  have "?m ''LIG'' = Some ''LIG (user.cif)''" by simp
  then have a: "synthesize_missing ex_services ex_model ?m [''LIG'', ''XYZ''] ''LIG'' = Some ''LIG (user.cif)''"
    using th by blast
  have b: "synthesize_missing ex_services ex_model ?m [''LIG'', ''XYZ''] ''XYZ'' = Some ''ad-hoc XYZ''"
    by (simp add: synthesize_missing_def synthesize_one_def ex_template_XYZ emplace_def pointee_def)
       (simp add: ex_services_def ex_residue_def)
  show ?thesis using a b by simp
qed

end
